theory Spec2Isabelle
  imports Complex_Main "HOL-Library.Sublist"
begin

section \<open>The autonomy task executor of the rover (task\_executor.py)\<close>

text \<open>
  The theory is a shallow embedding of the class \<^verbatim>\<open>AutonomyTaskExecutor\<close>: its perception
  callbacks, the Nav2 wrappers it copies from the simple commander, and the mission thread
  (\<^verbatim>\<open>action_server_callback\<close>, \<^verbatim>\<open>exec_autonomy_task\<close>, \<^verbatim>\<open>exec_leg\<close>, \<^verbatim>\<open>gps_nav\<close>,
  \<^verbatim>\<open>spin_search\<close>, \<^verbatim>\<open>hex_search\<close>, \<^verbatim>\<open>found_check\<close>).

  Conventions of the model.
  \<^item> The attributes of the node are the fields of the record \<open>executor\<close>. Everything the node
    does to the outside (mode triggers, feedback to the action client, goals sent to and
    cancelled at the Nav2 action servers, sleeps) is
    appended to the field \<open>events\<close>; nothing else reads that field.
  \<^item> A Python float is the real it denotes. The subtraction in the test of the convergence
    loop is the field \<open>float_minus\<close> of \<open>collaborators\<close>, the difference as the platform's
    doubles give it; the sums and products that place the hex pattern are taken exact.
  \<^item> The mission thread runs against a script of \<open>tick\<close>s. Each time the thread waits on the
    outside world (one pass of a polling loop, one awaited future) it consumes the next tick.
    A tick first delivers the messages that arrived since the previous tick to the callbacks
    (the callbacks run in other threads; in the mission thread's model each runs to its end at
    a tick boundary; the finer interleavings, in which the mission thread moves on while a
    callback is under way, are those of \<open>interleave\<close> below) and
    then tells what the awaited service answered. A thread that waits when the script is
    exhausted yields \<open>Pending\<close>: the function has not returned.
  \<^item> A Python exception is the outcome \<open>Raise\<close> with the exception's text.
  \<^item> Code that is not part of the file (planners, tf2, utm, the waypoint parser) is a field
    of the record \<open>collaborators\<close> or an argument.
  \<^item> Logger output and the mapviz publishers are left out; the trigger services, found
    available in \<^verbatim>\<open>__init__\<close>, answer every call.
\<close>

subsection \<open>Messages and poses\<close>

record geopose =
  latitude :: real
  longitude :: real
  yaw :: real

text \<open>Modelled from the spec: \<^verbatim>\<open>latLonYaw2Geopose\<close> of \<^verbatim>\<open>rover_navigation.utils.gps_utils\<close> is
  not among the sources; a GeoPose is a latitude, a longitude and a heading, the heading
  defaulting to zero as no caller passes one.\<close>

definition latLonYaw2Geopose :: "real \<Rightarrow> real \<Rightarrow> geopose" where
  "latLonYaw2Geopose lat lon = \<lparr>latitude = lat, longitude = lon, yaw = 0\<rparr>"

record pose =
  position_x :: real
  position_y :: real
  position_z :: real
  orientation_x :: real
  orientation_y :: real
  orientation_z :: real
  orientation_w :: real

record marker =
  marker_id :: nat
  marker_pose :: pose

record detected_object =
  label :: string
  position :: "real \<times> real \<times> real"

record waypoint =
  wp_leg :: string
  wp_latitude :: real
  wp_longitude :: real

datatype msg =
    NavSatFix real real
  | ArucoDetection string nat "marker list"
  | ObjectsStamped string nat "detected_object list"
  | CancelRequest

datatype goal_status = STATUS_SUCCEEDED | STATUS_CANCELED | STATUS_ABORTED | STATUS_UNKNOWN

datatype task_result = SUCCEEDED | CANCELED | FAILED | UNKNOWN

datatype future = Waiting | Finished goal_status

datatype mode = Teleop | Auto | Arrival

datatype severity = Info | Warn | Error | Fatal

datatype goal = FollowGPSWaypoints "geopose list" | Spin real nat

datatype event =
    Trigger mode
  | Feedback severity string string
  | SendGoal goal
  | CancelGoal
  | Sleep nat
  | Enter_gps_nav geopose string bool
  | Enter_spin_search string
  | Enter_hex_search

text \<open>
  \<open>Feedback sev leg text\<close> is the feedback whose status string is \<^verbatim>\<open>"[" + leg + "] " + text\<close>,
  prefixed by \<^verbatim>\<open>[WARN]\<close>, \<^verbatim>\<open>[ERROR]\<close> or \<^verbatim>\<open>[FATAL]\<close>. \<open>Sleep\<close> counts milliseconds. The three
  \<open>Enter\<close> events are not outputs of the node: they mark the calls of \<^verbatim>\<open>gps_nav\<close>,
  \<^verbatim>\<open>spin_search\<close> and \<^verbatim>\<open>hex_search\<close> with their arguments.
\<close>

subsection \<open>The node's state\<close>

record executor =
  leg :: string
  legs :: "string list"
  wps :: "waypoint list"
  found_poses :: "string \<Rightarrow> geopose option"
  filtered_gps :: "geopose option"
  zone :: "nat option"
  hemisphere :: "string option"
  path_planner :: string
  order_planner :: string
  cancel_flag :: bool
  is_cancel_requested :: bool
  result_future :: "future option"
  status :: "goal_status option"
  events :: "event list"

text \<open>
  \<open>found_poses\<close> is the dictionary of the five target labels; \<open>None\<close> is Python's \<^verbatim>\<open>None\<close>.
  Every access in the source is guarded by membership of the key in \<open>aruco_legs\<close> or
  \<open>obj_legs\<close>, which are the dictionary's keys. \<open>is_cancel_requested\<close> is the property of
  \<^verbatim>\<open>task_goal_handle\<close>. \<^verbatim>\<open>goal_handle\<close> is not a field: each send assigns it before
  \<open>result_future\<close> is ever set, and it is only read as the target of the cancellation.
\<close>

record collaborators =
  tf_transform :: "string \<Rightarrow> nat \<Rightarrow> pose \<Rightarrow> pose option"
  utm_to_latlon :: "real \<Rightarrow> real \<Rightarrow> nat option \<Rightarrow> string option \<Rightarrow> real \<times> real"
  utm_from_latlon_zone :: "real \<Rightarrow> real \<Rightarrow> nat"
  basicPathPlanner :: "geopose option \<Rightarrow> geopose \<Rightarrow> geopose list"
  terrainPathPlanner :: "geopose option \<Rightarrow> geopose \<Rightarrow> geopose list"
  bruteOrderPlanner :: "string list \<Rightarrow> waypoint list \<Rightarrow> geopose option \<Rightarrow> string list"
  greedyOrderPlanner :: "string list \<Rightarrow> waypoint list \<Rightarrow> geopose option \<Rightarrow> string list"
  terrainOrderPlanner :: "string list \<Rightarrow> waypoint list \<Rightarrow> geopose option \<Rightarrow> string list"
  noOrderPlanner :: "string list \<Rightarrow> waypoint list \<Rightarrow> geopose option \<Rightarrow> string list"
  float_minus :: "real \<Rightarrow> real \<Rightarrow> real"

text \<open>\<open>tf_transform frame stamp p\<close> is the lookup of the transform to \<^verbatim>\<open>utm\<close> followed by
  \<^verbatim>\<open>do_transform_pose\<close>; \<open>None\<close> when either raises. \<open>float_minus a b\<close> is Python's \<^verbatim>\<open>a - b\<close>
  on two doubles: the difference rounded to the nearest double, which is the difference itself
  whenever that is a double (so for any two doubles within a factor of two of each other).\<close>

record tick =
  msgs :: "msg list"
  server_ready :: bool
  goal_accepted :: bool
  goal_result :: "goal_status option"
  node_state :: "string option"

datatype 'a outcome = Ret 'a | Raise string | Pending

type_synonym 'a run = "'a outcome \<times> executor \<times> tick list"

subsection \<open>Task constants\<close>

definition gps_legs :: "string list" where
  "gps_legs = [''gps1'', ''gps2'']"

definition aruco_legs :: "string list" where
  "aruco_legs = [''aruco1'', ''aruco2'', ''aruco3'']"

definition obj_legs :: "string list" where
  "obj_legs = [''mallet'', ''bottle'']"

definition tags :: "string \<Rightarrow> nat option" where
  "tags = [''aruco1'' \<mapsto> 1, ''aruco2'' \<mapsto> 2, ''aruco3'' \<mapsto> 3]"

definition wait_time :: nat where
  "wait_time = 10"

text \<open>The attribute \<^verbatim>\<open>update_threshold\<close> holds the double that the literal \<^verbatim>\<open>0.000005\<close> denotes:
  \<open>5902958103587057 / 2\<^sup>7\<^sup>0\<close>, the double nearest to five millionths and just above it.\<close>

definition update_threshold :: real where
  "update_threshold = 5902958103587057 / 1180591620717411303424"

definition hex_coord :: "(real \<times> real) list" where
  "hex_coord = [(1, 0), (1 / 2, 866 / 1000), (- 1 / 2, 866 / 1000),
                (- 1, 0), (- 1 / 2, - 866 / 1000), (1 / 2, - 866 / 1000)]"

definition hex_scalar :: real where
  "hex_scalar = 1 / 10000"

definition cancel_text :: string where
  "cancel_text = ''Task execution canceled by action client''"

subsection \<open>Python helpers\<close>

text \<open>\<^verbatim>\<open>a in b\<close> on two strings: \<open>a\<close> occurs in \<open>b\<close> as a contiguous block.\<close>

fun str_in :: "string \<Rightarrow> string \<Rightarrow> bool" where
  "str_in a [] = (a = [])"
| "str_in a (c # cs) = (prefix a (c # cs) \<or> str_in a cs)"

fun str_nat :: "nat \<Rightarrow> string" where
  "str_nat n = (if n < 10 then [char_of (48 + n)] else str_nat (n div 10) @ [char_of (48 + n mod 10)])"

declare str_nat.simps [simp del]

text \<open>\<^verbatim>\<open>str\<close> of a list of strings, for names that \<^verbatim>\<open>repr\<close> prints between single quotes
  unescaped.\<close>

fun join_legs :: "string list \<Rightarrow> string" where
  "join_legs [] = []"
| "join_legs [l] = [CHR 0x27] @ l @ [CHR 0x27]"
| "join_legs (l # ls) = [CHR 0x27] @ l @ [CHR 0x27] @ '', '' @ join_legs ls"

definition str_legs :: "string list \<Rightarrow> string" where
  "str_legs ls = ''['' @ join_legs ls @ '']''"

subsection \<open>Effects\<close>

definition emit :: "event \<Rightarrow> executor \<Rightarrow> executor" where
  "emit e s = s\<lparr>events := events s @ [e]\<rparr>"

definition task_info :: "string \<Rightarrow> executor \<Rightarrow> executor" where
  "task_info string s = emit (Feedback Info (leg s) string) s"

definition task_warn :: "string \<Rightarrow> executor \<Rightarrow> executor" where
  "task_warn string s = emit (Feedback Warn (leg s) string) s"

definition task_error :: "string \<Rightarrow> executor \<Rightarrow> executor" where
  "task_error string s = emit (Feedback Error (leg s) string) s"

definition task_fatal :: "string \<Rightarrow> executor \<Rightarrow> executor" where
  "task_fatal string s = emit (Feedback Fatal (leg s) string) s"

text \<open>\<^verbatim>\<open>asyncio.run(self.async_service_call(client, request))\<close> on one of the three trigger
  clients.\<close>

definition trigger :: "mode \<Rightarrow> executor \<Rightarrow> executor" where
  "trigger m s = emit (Trigger m) s"

definition and_then :: "'a run \<Rightarrow> ('a \<Rightarrow> tick list \<Rightarrow> executor \<Rightarrow> 'b run) \<Rightarrow> 'b run" where
  "and_then r k =
     (case r of
        (Ret v, s, ts) \<Rightarrow> k v ts s
      | (Raise e, s, ts) \<Rightarrow> (Raise e, s, ts)
      | (Pending, s, ts) \<Rightarrow> (Pending, s, ts))"

subsection \<open>ROS 2 callbacks\<close>

definition cancel_callback :: "executor \<Rightarrow> executor" where
  "cancel_callback s = s\<lparr>cancel_flag := True\<rparr>"

definition gps_callback :: "collaborators \<Rightarrow> executor \<Rightarrow> real \<Rightarrow> real \<Rightarrow> executor" where
  "gps_callback ext s lat lon =
     (let s1 = (if zone s = None \<or> hemisphere s = None
                then s\<lparr>zone := Some (utm_from_latlon_zone ext lat lon),
                       hemisphere := Some (if lat > 0 then ''N'' else ''S'')\<rparr>
                else s)
      in s1\<lparr>filtered_gps := Some (latLonYaw2Geopose lat lon)\<rparr>)"

definition pose_to_geopose :: "collaborators \<Rightarrow> executor \<Rightarrow> pose \<Rightarrow> string \<Rightarrow> nat \<Rightarrow> geopose option" where
  "pose_to_geopose ext s p frame_id stamp =
     (case tf_transform ext frame_id stamp p of
        None \<Rightarrow> None
      | Some utm_pose \<Rightarrow>
          if filtered_gps s = None then None
          else (case utm_to_latlon ext (position_x utm_pose) (position_y utm_pose) (zone s) (hemisphere s) of
                  (lat, lon) \<Rightarrow> Some (latLonYaw2Geopose lat lon)))"

definition aruco_marker :: "collaborators \<Rightarrow> string \<Rightarrow> nat \<Rightarrow> executor \<Rightarrow> marker \<Rightarrow> executor" where
  "aruco_marker ext frame_id stamp s m =
     (if Some (marker_id m) = tags (leg s) then
        (case pose_to_geopose ext s (marker_pose m) frame_id stamp of
           Some p \<Rightarrow> s\<lparr>found_poses := (found_poses s)(leg s := Some p)\<rparr>
         | None \<Rightarrow> s)
      else s)"

definition aruco_callback :: "collaborators \<Rightarrow> executor \<Rightarrow> string \<Rightarrow> nat \<Rightarrow> marker list \<Rightarrow> executor" where
  "aruco_callback ext s frame_id stamp markers =
     (if leg s \<in> set aruco_legs then foldl (aruco_marker ext frame_id stamp) s markers else s)"

definition obj_pose :: "detected_object \<Rightarrow> pose" where
  "obj_pose obj =
     (case position obj of
        (x, y, z) \<Rightarrow>
          \<lparr>position_x = x, position_y = y, position_z = z,
           orientation_x = 0, orientation_y = 0, orientation_z = 0, orientation_w = 1\<rparr>)"

definition obj_detection :: "collaborators \<Rightarrow> string \<Rightarrow> nat \<Rightarrow> executor \<Rightarrow> detected_object \<Rightarrow> executor" where
  "obj_detection ext frame_id stamp s obj =
     (if str_in (label obj) (leg s) then
        (case pose_to_geopose ext s (obj_pose obj) frame_id stamp of
           Some p \<Rightarrow> s\<lparr>found_poses := (found_poses s)(leg s := Some p)\<rparr>
         | None \<Rightarrow> s)
      else s)"

definition obj_callback :: "collaborators \<Rightarrow> executor \<Rightarrow> string \<Rightarrow> nat \<Rightarrow> detected_object list \<Rightarrow> executor" where
  "obj_callback ext s frame_id stamp objects =
     (if leg s \<in> set obj_legs then foldl (obj_detection ext frame_id stamp) s objects else s)"

text \<open>One message handled by its callback. A cancel request runs \<^verbatim>\<open>cancel_callback\<close>; as
  the callback accepts, rclpy marks the served goal as cancel-requested.\<close>

fun callback :: "collaborators \<Rightarrow> executor \<Rightarrow> msg \<Rightarrow> executor" where
  "callback ext s (NavSatFix lat lon) = gps_callback ext s lat lon"
| "callback ext s (ArucoDetection frame_id stamp markers) = aruco_callback ext s frame_id stamp markers"
| "callback ext s (ObjectsStamped frame_id stamp objects) = obj_callback ext s frame_id stamp objects"
| "callback ext s CancelRequest = (cancel_callback s)\<lparr>is_cancel_requested := True\<rparr>"

definition deliver :: "collaborators \<Rightarrow> tick \<Rightarrow> executor \<Rightarrow> executor" where
  "deliver ext t s = foldl (callback ext) s (msgs t)"

subsection \<open>Callbacks interleaved with the mission thread\<close>

text \<open>
  The node spins in a \<^verbatim>\<open>MultiThreadedExecutor\<close>. The subscriptions share one mutually
  exclusive callback group and the action server has a group of its own, so a perception
  callback runs while the mission thread runs, and no lock guards the attributes they share.
  A perception callback reads \<^verbatim>\<open>self.leg\<close> three times: in its guard, in the test of a
  detection, and as the key of the store. Between two of these reads the mission thread may
  have entered another leg (\<^verbatim>\<open>self.leg = leg\<close> in \<^verbatim>\<open>exec_leg\<close>, \<^verbatim>\<open>self.leg = "end"\<close> after the
  last). The callback is therefore also given as a machine that makes one read of
  \<^verbatim>\<open>self.leg\<close> per step; \<open>position\<close> says where the callback stands and what it holds in
  its local variables.
\<close>

datatype 'd position =
    Guard "'d list"
  | Match "'d list"
  | Store geopose "'d list"
  | Over
  | Crashed string

text \<open>\<open>Guard\<close>: before the test of the leg's category, with the detections of the message.
  \<open>Match\<close>: before the test of the first of the detections that remain. \<open>Store\<close>: the
  detection passed the test and its pose was converted; before the assignment to
  \<^verbatim>\<open>self.found_poses[self.leg]\<close>. \<open>Over\<close>: the callback returned. \<open>Crashed\<close>: it raised.
  \<^verbatim>\<open>self.tags[self.leg]\<close> raises a \<^verbatim>\<open>KeyError\<close> on a leg that has no tag; an assignment to a
  dictionary takes any key.\<close>

fun aruco_step :: "collaborators \<Rightarrow> string \<Rightarrow> nat \<Rightarrow> marker position \<Rightarrow> executor \<Rightarrow> marker position \<times> executor" where
  "aruco_step ext frame_id stamp (Guard markers) s =
     (if leg s \<in> set aruco_legs then (Match markers, s) else (Over, s))"
| "aruco_step ext frame_id stamp (Match []) s = (Over, s)"
| "aruco_step ext frame_id stamp (Match (m # markers)) s =
     (case tags (leg s) of
        None \<Rightarrow> (Crashed ''KeyError'', s)
      | Some tag \<Rightarrow>
          if marker_id m = tag then
            (case pose_to_geopose ext s (marker_pose m) frame_id stamp of
               Some p \<Rightarrow> (Store p markers, s)
             | None \<Rightarrow> (Match markers, s))
          else (Match markers, s))"
| "aruco_step ext frame_id stamp (Store p markers) s =
     (Match markers, s\<lparr>found_poses := (found_poses s)(leg s := Some p)\<rparr>)"
| "aruco_step ext frame_id stamp Over s = (Over, s)"
| "aruco_step ext frame_id stamp (Crashed e) s = (Crashed e, s)"

fun obj_step :: "collaborators \<Rightarrow> string \<Rightarrow> nat \<Rightarrow> detected_object position \<Rightarrow> executor
                 \<Rightarrow> detected_object position \<times> executor" where
  "obj_step ext frame_id stamp (Guard objects) s =
     (if leg s \<in> set obj_legs then (Match objects, s) else (Over, s))"
| "obj_step ext frame_id stamp (Match []) s = (Over, s)"
| "obj_step ext frame_id stamp (Match (obj # objects)) s =
     (if str_in (label obj) (leg s) then
        (case pose_to_geopose ext s (obj_pose obj) frame_id stamp of
           Some p \<Rightarrow> (Store p objects, s)
         | None \<Rightarrow> (Match objects, s))
      else (Match objects, s))"
| "obj_step ext frame_id stamp (Store p objects) s =
     (Match objects, s\<lparr>found_poses := (found_poses s)(leg s := Some p)\<rparr>)"
| "obj_step ext frame_id stamp Over s = (Over, s)"
| "obj_step ext frame_id stamp (Crashed e) s = (Crashed e, s)"

text \<open>What the mission thread did to \<^verbatim>\<open>self.leg\<close> since the callback's previous step.\<close>

datatype interference = Stay | Enter_leg string

fun interfere :: "interference \<Rightarrow> executor \<Rightarrow> executor" where
  "interfere Stay s = s"
| "interfere (Enter_leg l) s = s\<lparr>leg := l\<rparr>"

text \<open>A callback run against a schedule: before each of its steps the mission thread does
  what the schedule says.\<close>

fun interleave :: "('p \<Rightarrow> executor \<Rightarrow> 'p \<times> executor) \<Rightarrow> interference list \<Rightarrow> 'p \<Rightarrow> executor
                   \<Rightarrow> 'p \<times> executor" where
  "interleave step [] pc s = (pc, s)"
| "interleave step (i # sched) pc s =
     (case step pc (interfere i s) of (pc', s') \<Rightarrow> interleave step sched pc' s')"

subsection \<open>Nav2 basic navigator based code\<close>

text \<open>A loop that consumes one tick per pass. The body says whether the loop goes on, ends
  (its condition failed), returns a value from inside, or raises.\<close>

datatype 'a step =
    Continue executor
  | LoopEnd executor
  | Returned 'a executor
  | Raised string executor

fun poll :: "(tick \<Rightarrow> executor \<Rightarrow> 'a step) \<Rightarrow> tick list \<Rightarrow> executor \<Rightarrow> 'a option run" where
  "poll body [] s = (Pending, s, [])"
| "poll body (t # ts) s =
     (case body t s of
        Continue s' \<Rightarrow> poll body ts s'
      | LoopEnd s' \<Rightarrow> (Ret None, s', ts)
      | Returned v s' \<Rightarrow> (Ret (Some v), s', ts)
      | Raised e s' \<Rightarrow> (Raise e, s', ts))"

text \<open>\<^verbatim>\<open>while not client.wait_for_server(timeout_sec=1.0)\<close>, and the same loop on a service.\<close>

definition wait_for_server :: "collaborators \<Rightarrow> tick \<Rightarrow> executor \<Rightarrow> unit step" where
  "wait_for_server ext t s =
     (let s1 = deliver ext t s in if server_ready t then LoopEnd s1 else Continue s1)"

text \<open>The shared body of \<^verbatim>\<open>followGpsWaypoints\<close> and \<^verbatim>\<open>spin\<close>: wait for the action server,
  send the goal, await the answer; an accepted goal gets a fresh result future.\<close>

definition send_goal :: "collaborators \<Rightarrow> goal \<Rightarrow> tick list \<Rightarrow> executor \<Rightarrow> bool run" where
  "send_goal ext g ts s =
     and_then (poll (wait_for_server ext) ts s) (\<lambda>_ ts s.
       case ts of
         [] \<Rightarrow> (Pending, emit (SendGoal g) s, [])
       | t # ts' \<Rightarrow>
           (let s1 = deliver ext t (emit (SendGoal g) s) in
            if \<not> goal_accepted t then (Ret False, s1, ts')
            else (Ret True, s1\<lparr>result_future := Some Waiting\<rparr>, ts')))"

definition followGpsWaypoints :: "collaborators \<Rightarrow> geopose list \<Rightarrow> tick list \<Rightarrow> executor \<Rightarrow> bool run" where
  "followGpsWaypoints ext gps_poses ts s = send_goal ext (FollowGPSWaypoints gps_poses) ts s"

definition spin :: "collaborators \<Rightarrow> real \<Rightarrow> nat \<Rightarrow> tick list \<Rightarrow> executor \<Rightarrow> bool run" where
  "spin ext spin_dist time_allowance ts s = send_goal ext (Spin spin_dist time_allowance) ts s"

definition cancelTask :: "executor \<Rightarrow> executor" where
  "cancelTask s = (if result_future s \<noteq> None then emit CancelGoal s else s)"

text \<open>\<^verbatim>\<open>isTaskComplete\<close>: a future that is still waiting may get its result at this tick; a
  finished future keeps its result.\<close>

definition isTaskComplete :: "tick \<Rightarrow> executor \<Rightarrow> bool \<times> executor" where
  "isTaskComplete t s =
     (case result_future s of
        None \<Rightarrow> (True, s)
      | Some f \<Rightarrow>
          (case (case f of Finished st \<Rightarrow> Some st | Waiting \<Rightarrow> goal_result t) of
             None \<Rightarrow> (False, s)
           | Some st \<Rightarrow> (True, s\<lparr>result_future := Some (Finished st), status := Some st\<rparr>)))"

definition getResult :: "executor \<Rightarrow> task_result" where
  "getResult s =
     (if status s = Some STATUS_SUCCEEDED then SUCCEEDED
      else if status s = Some STATUS_ABORTED then FAILED
      else if status s = Some STATUS_CANCELED then CANCELED
      else UNKNOWN)"

text \<open>\<^verbatim>\<open>_waitForNodeToActivate\<close>, second loop: ask for the node's state, sleep two seconds,
  leave once the state is \<^verbatim>\<open>active\<close>.\<close>

definition get_state :: "collaborators \<Rightarrow> tick \<Rightarrow> executor \<Rightarrow> unit step" where
  "get_state ext t s =
     (let s1 = emit (Sleep 2000) (deliver ext t s)
      in if node_state t = Some ''active'' then LoopEnd s1 else Continue s1)"

definition waitForNodeToActivate :: "collaborators \<Rightarrow> tick list \<Rightarrow> executor \<Rightarrow> unit run" where
  "waitForNodeToActivate ext ts s =
     and_then (poll (wait_for_server ext) ts s) (\<lambda>_ ts s.
     and_then (poll (get_state ext) ts s) (\<lambda>_ ts s. (Ret (), s, ts)))"

text \<open>\<^verbatim>\<open>waitUntilNav2Active(localizer="robot_localization")\<close>: only the navigator is waited
  for.\<close>

definition waitUntilNav2Active :: "collaborators \<Rightarrow> tick list \<Rightarrow> executor \<Rightarrow> unit run" where
  "waitUntilNav2Active ext ts s = waitForNodeToActivate ext ts s"

subsection \<open>Task executor functions\<close>

definition found_check :: "executor \<Rightarrow> geopose option" where
  "found_check s =
     (if leg s \<in> set aruco_legs \<or> leg s \<in> set obj_legs then found_poses s (leg s) else None)"

text \<open>The test of \<^verbatim>\<open>gps_nav\<close> on a pose against the destination of the navigation.\<close>

definition significant_change :: "collaborators \<Rightarrow> geopose \<Rightarrow> geopose \<Rightarrow> bool" where
  "significant_change ext p dest_wp \<longleftrightarrow>
     \<bar>float_minus ext (latitude p) (latitude dest_wp)\<bar> > update_threshold
     \<or> \<bar>float_minus ext (longitude p) (longitude dest_wp)\<bar> > update_threshold"

definition plan_path :: "collaborators \<Rightarrow> executor \<Rightarrow> geopose \<Rightarrow> geopose list option" where
  "plan_path ext s dest_wp =
     (if path_planner s = ''basicPathPlanner'' then Some (basicPathPlanner ext (filtered_gps s) dest_wp)
      else if path_planner s = ''terrainPathPlanner'' then Some (terrainPathPlanner ext (filtered_gps s) dest_wp)
      else None)"

text \<open>One pass of the polling loop of \<^verbatim>\<open>gps_nav\<close>. In the updating mode \<^verbatim>\<open>found_check\<close>
  returning \<^verbatim>\<open>False\<close> would make \<^verbatim>\<open>pose.position\<close> raise.\<close>

definition gps_nav_pass :: "collaborators \<Rightarrow> geopose \<Rightarrow> string \<Rightarrow> bool \<Rightarrow> tick \<Rightarrow> executor \<Rightarrow> geopose step" where
  "gps_nav_pass ext dest_wp src_string updating t s =
     (case isTaskComplete t (deliver ext t s) of
        (True, s1) \<Rightarrow> LoopEnd s1
      | (False, s1) \<Rightarrow>
          (let s2 = emit (Sleep 100) s1 in
           if is_cancel_requested s2 then Raised cancel_text (cancelTask s2)
           else if updating then
             (case found_check s2 of
                None \<Rightarrow> Raised ''AttributeError'' s2
              | Some p \<Rightarrow>
                  if significant_change ext p dest_wp
                  then Returned p (emit (Sleep 500) (cancelTask
                         (task_info (''Improved GPS location found'' @ src_string) s2)))
                  else Continue s2)
           else
             (case found_check s2 of
                Some p \<Rightarrow> Returned p (cancelTask s2)
              | None \<Rightarrow> Continue s2)))"

definition report_result :: "string \<Rightarrow> string \<Rightarrow> executor \<Rightarrow> executor" where
  "report_result what src_string s =
     (case getResult s of
        SUCCEEDED \<Rightarrow> task_info (what @ '' completed'' @ src_string) s
      | CANCELED \<Rightarrow> task_warn (what @ '' canceled'' @ src_string) s
      | FAILED \<Rightarrow> task_error (what @ '' failed'' @ src_string) s
      | UNKNOWN \<Rightarrow> s)"

definition gps_nav :: "collaborators \<Rightarrow> geopose \<Rightarrow> string \<Rightarrow> bool \<Rightarrow> tick list \<Rightarrow> executor \<Rightarrow> geopose option run" where
  "gps_nav ext dest_wp src_string updating ts s0 =
     (let s = task_info (''Starting GPS navigation'' @ src_string)
                (emit (Enter_gps_nav dest_wp src_string updating) s0) in
      case plan_path ext s dest_wp of
        None \<Rightarrow> (Raise (''Invalid path planner provided: '' @ path_planner s), s, ts)
      | Some path \<Rightarrow>
          and_then (followGpsWaypoints ext path ts s) (\<lambda>_ ts s.
          and_then (poll (gps_nav_pass ext dest_wp src_string updating) ts s) (\<lambda>found ts s.
            case found of
              Some p \<Rightarrow> (Ret (Some p), s, ts)
            | None \<Rightarrow> (Ret None, report_result ''GPS navigation'' src_string s, ts))))"

definition spin_search_pass :: "collaborators \<Rightarrow> tick \<Rightarrow> executor \<Rightarrow> geopose step" where
  "spin_search_pass ext t s =
     (case isTaskComplete t (deliver ext t s) of
        (True, s1) \<Rightarrow> LoopEnd s1
      | (False, s1) \<Rightarrow>
          (let s2 = emit (Sleep 100) s1 in
           if is_cancel_requested s2 then Raised cancel_text (cancelTask s2)
           else
             (case found_check s2 of
                Some p \<Rightarrow> Returned p (cancelTask s2)
              | None \<Rightarrow> Continue s2)))"

definition spin_search :: "collaborators \<Rightarrow> string \<Rightarrow> tick list \<Rightarrow> executor \<Rightarrow> geopose option run" where
  "spin_search ext src_string ts s0 =
     (let s = task_info (''Starting spin search'' @ src_string) (emit (Enter_spin_search src_string) s0) in
      and_then (spin ext (314 / 100) 10 ts s) (\<lambda>_ ts s.
      and_then (poll (spin_search_pass ext) ts s) (\<lambda>found ts s.
        case found of
          Some p \<Rightarrow> (Ret (Some p), s, ts)
        | None \<Rightarrow> (Ret None, report_result ''Spin search'' src_string s, ts))))"

text \<open>The waypoint of a leg: the loop over \<^verbatim>\<open>self.wps\<close> keeps the last entry of that leg.\<close>

definition leg_waypoint :: "waypoint list \<Rightarrow> string \<Rightarrow> geopose option" where
  "leg_waypoint ws l =
     foldl (\<lambda>found wp. if wp_leg wp = l then Some (latLonYaw2Geopose (wp_latitude wp) (wp_longitude wp))
                        else found) None ws"

definition hex_src :: "nat \<Rightarrow> string" where
  "hex_src i = '' (hex '' @ str_nat i @ '')''"

definition hex_wp :: "geopose \<Rightarrow> real \<times> real \<Rightarrow> geopose" where
  "hex_wp base_wp coord =
     latLonYaw2Geopose (latitude base_wp + fst coord * hex_scalar)
                       (longitude base_wp + snd coord * hex_scalar)"

text \<open>The loop of \<^verbatim>\<open>hex_search\<close> over \<^verbatim>\<open>enumerate(self.hex_coord)\<close>, from index \<open>i\<close>.\<close>

fun hex_visit :: "collaborators \<Rightarrow> geopose \<Rightarrow> nat \<Rightarrow> (real \<times> real) list \<Rightarrow> tick list \<Rightarrow> executor \<Rightarrow> geopose option run" where
  "hex_visit ext base_wp i [] ts s = (Ret None, s, ts)"
| "hex_visit ext base_wp i (coord # coords) ts s =
     and_then (gps_nav ext (hex_wp base_wp coord) (hex_src i) False ts s) (\<lambda>found ts s.
       case found of
         Some p \<Rightarrow> (Ret (Some p), s, ts)
       | None \<Rightarrow>
           and_then (spin_search ext (hex_src i) ts s) (\<lambda>found ts s.
             case found of
               Some p \<Rightarrow> (Ret (Some p), s, ts)
             | None \<Rightarrow> hex_visit ext base_wp (Suc i) coords ts s))"

text \<open>\<^verbatim>\<open>hex_search\<close>. Were no waypoint of the leg in the table, \<^verbatim>\<open>base_wp\<close> would be unbound
  at its first use.\<close>

definition hex_search :: "collaborators \<Rightarrow> tick list \<Rightarrow> executor \<Rightarrow> geopose option run" where
  "hex_search ext ts s0 =
     (let s = task_info ''Starting hex search'' (emit Enter_hex_search s0) in
      case leg_waypoint (wps s) (leg s) of
        None \<Rightarrow> (Raise ''UnboundLocalError'', s, ts)
      | Some base_wp \<Rightarrow>
          and_then (hex_visit ext base_wp 0 hex_coord ts s) (\<lambda>found ts s.
            case found of
              Some p \<Rightarrow> (Ret (Some p), s, ts)
            | None \<Rightarrow> (Ret None, task_info ''Hex search completed'' s, ts)))"

text \<open>Each pass of a polling loop consumes a tick, so a navigation that returns leaves a
  shorter script; the loop of \<^verbatim>\<open>exec_leg\<close> below terminates on that measure.\<close>

lemma poll_shorter:
  "poll body ts s = (r, s', ts') \<Longrightarrow> r \<noteq> Pending \<Longrightarrow> length ts' < length ts"
proof (induction ts arbitrary: s)
  case Nil
  then show ?case by simp
next
  case (Cons t ts)
  then show ?case
    by (cases "body t s") (auto simp: less_Suc_eq dest: Cons.IH)
qed

lemma and_then_Ret:
  "and_then r k = (Ret v, s', ts') \<Longrightarrow> \<exists>u s1 ts1. r = (Ret u, s1, ts1) \<and> k u ts1 s1 = (Ret v, s', ts')"
  by (auto simp: and_then_def split: prod.splits outcome.splits)

lemma send_goal_shorter:
  "send_goal ext g ts s = (Ret v, s', ts') \<Longrightarrow> length ts' < length ts"
  unfolding send_goal_def Let_def
  by (auto dest!: and_then_Ret poll_shorter split: list.splits if_splits)

lemma gps_nav_shorter:
  "gps_nav ext d src u ts s = (Ret v, s', ts') \<Longrightarrow> length ts' < length ts"
  unfolding gps_nav_def Let_def followGpsWaypoints_def
  by (auto dest!: and_then_Ret poll_shorter send_goal_shorter split: option.splits)

text \<open>\<^verbatim>\<open>while found_loc: found_loc = self.gps_nav(found_loc, src, updating=True)\<close>.\<close>

function update_loop :: "collaborators \<Rightarrow> string \<Rightarrow> geopose \<Rightarrow> tick list \<Rightarrow> executor \<Rightarrow> unit run" where
  "update_loop ext src_string found_loc ts s =
     (case gps_nav ext found_loc src_string True ts s of
        (Ret (Some p), s', ts') \<Rightarrow> update_loop ext src_string p ts' s'
      | (Ret None, s', ts') \<Rightarrow> (Ret (), s', ts')
      | (Raise e, s', ts') \<Rightarrow> (Raise e, s', ts')
      | (Pending, s', ts') \<Rightarrow> (Pending, s', ts'))"
  by pat_completeness auto
termination
  by (relation "measure (\<lambda>(ext, src_string, found_loc, ts, s). length ts)")
     (auto dest: gps_nav_shorter [OF sym])

declare update_loop.simps [simp del]

text \<open>The end of a leg that succeeded: arrival state, dwell, back to the autonomy state.\<close>

definition signal_arrival :: "tick list \<Rightarrow> executor \<Rightarrow> unit run" where
  "signal_arrival ts s =
     (Ret (),
      trigger Auto (emit (Sleep (wait_time * 1000))
        (trigger Arrival (task_info ''Flashing LED to indicate arrival'' s))),
      ts)"

definition print_string :: "string \<Rightarrow> string" where
  "print_string l =
     (if l \<in> set gps_legs then ''GPS waypoint''
      else if l \<in> set aruco_legs then ''aruco tag''
      else ''object'')"

definition exec_leg :: "collaborators \<Rightarrow> string \<Rightarrow> tick list \<Rightarrow> executor \<Rightarrow> unit run" where
  "exec_leg ext l ts s0 =
     (let s = s0\<lparr>leg := l\<rparr> in
      if leg s \<in> set gps_legs \<or> leg s \<in> set aruco_legs \<or> leg s \<in> set obj_legs then
        (let s1 = task_info (''Starting '' @ print_string (leg s) @ '' leg'') s in
         case leg_waypoint (wps s1) (leg s1) of
           None \<Rightarrow> (Ret (), task_error ''No GPS waypoint found for leg'' s1, ts)
         | Some leg_wp \<Rightarrow>
             and_then (gps_nav ext leg_wp [] False ts s1) (\<lambda>found_loc ts s.
               if leg s \<in> set aruco_legs \<or> leg s \<in> set obj_legs then
                 and_then (if found_loc = None then spin_search ext [] ts s
                           else (Ret found_loc, s, ts)) (\<lambda>found_loc ts s.
                 and_then (if found_loc = None then hex_search ext ts s
                           else (Ret found_loc, s, ts)) (\<lambda>found_loc ts s.
                   case found_loc of
                     None \<Rightarrow> (Ret (), task_error (''Could not find the '' @ print_string (leg s)) s, ts)
                   | Some loc \<Rightarrow>
                       and_then (update_loop ext ('' ('' @ print_string (leg s) @ '')'') loc ts
                                   (task_info (''Found the '' @ print_string (leg s) @ ''!'') s))
                         (\<lambda>_ ts s. signal_arrival ts
                            (task_info (''SUCCESS! Found and navigated to '' @ print_string (leg s)) s))))
               else signal_arrival ts (task_info (''SUCCESS! Navigated to '' @ print_string (leg s)) s)))
      else (Ret (), task_error (''Invalid leg type provided:'' @ leg s) s, ts))"

text \<open>\<^verbatim>\<open>for leg in self.legs: self.exec_leg(leg)\<close>.\<close>

fun exec_legs :: "collaborators \<Rightarrow> string list \<Rightarrow> tick list \<Rightarrow> executor \<Rightarrow> unit run" where
  "exec_legs ext [] ts s = (Ret (), s, ts)"
| "exec_legs ext (l # ls) ts s =
     and_then (exec_leg ext l ts s) (\<lambda>_ ts s. exec_legs ext ls ts s)"

text \<open>\<^verbatim>\<open>while self.filtered_gps is None\<close>: the test reads the attribute; each pass sleeps a
  second, warns and looks at the cancel request.\<close>

fun wait_for_fix :: "collaborators \<Rightarrow> tick list \<Rightarrow> executor \<Rightarrow> unit run" where
  "wait_for_fix ext [] s = (if filtered_gps s = None then (Pending, s, []) else (Ret (), s, []))"
| "wait_for_fix ext (t # ts) s =
     (if filtered_gps s = None then
        (let s1 = task_warn ''Waiting on a GPS fix...'' (emit (Sleep 1000) (deliver ext t s)) in
         if is_cancel_requested s1 then (Raise cancel_text, cancelTask s1, ts)
         else wait_for_fix ext ts s1)
      else (Ret (), s, t # ts))"

definition plan_order :: "collaborators \<Rightarrow> executor \<Rightarrow> string list option" where
  "plan_order ext s =
     (if order_planner s = ''bruteOrderPlanner''
        then Some (bruteOrderPlanner ext (legs s) (wps s) (filtered_gps s))
      else if order_planner s = ''greedyOrderPlanner''
        then Some (greedyOrderPlanner ext (legs s) (wps s) (filtered_gps s))
      else if order_planner s = ''terrainOrderPlanner''
        then Some (terrainOrderPlanner ext (legs s) (wps s) (filtered_gps s))
      else if order_planner s = ''noOrderPlanner''
        then Some (noOrderPlanner ext (legs s) (wps s) (filtered_gps s))
      else None)"

definition exec_autonomy_task :: "collaborators \<Rightarrow> tick list \<Rightarrow> executor \<Rightarrow> unit run" where
  "exec_autonomy_task ext ts s0 =
     and_then (wait_for_fix ext ts (task_info ''Autonomy task execution started'' s0)) (\<lambda>_ ts s.
       (let s1 = task_info ''Please review the leg order plan (exit matplotlib to continue)''
                   (task_info (''Using order planner: '' @ order_planner s
                               @ '' and path planner: '' @ path_planner s) s) in
        case plan_order ext s1 of
          None \<Rightarrow> (Raise (''Invalid order planner provided: '' @ order_planner s1), s1, ts)
        | Some ordered \<Rightarrow>
            (let s2 = task_info (''Determined best leg order: '' @ str_legs ordered)
                        (s1\<lparr>legs := ordered\<rparr>) in
             and_then (waitUntilNav2Active ext ts s2) (\<lambda>_ ts s.
             and_then (exec_legs ext (legs s) ts s) (\<lambda>_ ts s.
               (Ret (), task_info ''Autonomy task execution completed'' (s\<lparr>leg := ''end''\<rparr>), ts))))))"

text \<open>The terminal state given to the served goal: the handle offers \<^verbatim>\<open>succeed\<close>,
  \<^verbatim>\<open>abort\<close> and \<^verbatim>\<open>canceled\<close>.\<close>

datatype terminal = Succeed | Abort | Canceled

record result =
  terminal_state :: terminal
  result_msg :: string

text \<open>The start of \<^verbatim>\<open>action_server_callback\<close>, on the waypoints parsed from the file and
  the legs of the goal request: the attributes it resets. A new goal handle has no cancel
  request yet.\<close>

definition begin_task :: "waypoint list \<Rightarrow> string list \<Rightarrow> executor \<Rightarrow> executor" where
  "begin_task parsed_wps request_legs s0 =
     s0\<lparr>wps := parsed_wps, is_cancel_requested := False, cancel_flag := False,
        leg := ''start'', found_poses := (\<lambda>_. None), legs := request_legs\<rparr>"

definition action_server_callback ::
  "collaborators \<Rightarrow> waypoint list \<Rightarrow> string list \<Rightarrow> tick list \<Rightarrow> executor \<Rightarrow> result run" where
  "action_server_callback ext parsed_wps request_legs ts s0 =
     (let s = begin_task parsed_wps request_legs s0 in
      if legs s = [] then
        (Ret \<lparr>terminal_state = Abort, result_msg = ''Well that was less-than-interstellar of you''\<rparr>,
         task_fatal ''No task legs provided'' s, ts)
      else
        (case exec_autonomy_task ext ts (trigger Auto s) of
           (Ret _, s1, ts1) \<Rightarrow>
             (Ret \<lparr>terminal_state = Succeed,
                   result_msg = ''One small step for a rover, one giant leap for roverkind''\<rparr>,
              trigger Teleop s1, ts1)
         | (Raise e, s1, ts1) \<Rightarrow>
             (Ret \<lparr>terminal_state = Abort, result_msg = ''It was the aliens, I'm telling you''\<rparr>,
              trigger Teleop (task_fatal e s1), ts1)
         | (Pending, s1, ts1) \<Rightarrow> (Pending, s1, ts1)))"

section \<open>Notions used to state and prove the properties\<close>

subsection \<open>Frames and event predicates\<close>

text \<open>\<open>untouched s s'\<close>: what a callback leaves alone, the events and the motion task among
  it; of the poses only the current leg's may differ.\<close>

definition untouched :: "executor \<Rightarrow> executor \<Rightarrow> bool" where
  "untouched s s' \<longleftrightarrow>
     leg s' = leg s \<and> events s' = events s \<and> wps s' = wps s \<and> path_planner s' = path_planner s
     \<and> result_future s' = result_future s \<and> status s' = status s
     \<and> (\<forall>k. k \<noteq> leg s \<longrightarrow> found_poses s' k = found_poses s k)"

text \<open>\<open>steps ok s s'\<close>: from \<open>s\<close> to \<open>s'\<close> the leg, the waypoints and the planner name are
  kept, the events added all satisfy \<open>ok\<close>, and no pose but the current leg's changed.\<close>

definition steps :: "(event \<Rightarrow> bool) \<Rightarrow> executor \<Rightarrow> executor \<Rightarrow> bool" where
  "steps ok s s' \<longleftrightarrow>
     leg s' = leg s \<and> wps s' = wps s \<and> path_planner s' = path_planner s
     \<and> (\<exists>evs. events s' = events s @ evs \<and> list_all ok evs)
     \<and> (\<forall>k. k \<noteq> leg s \<longrightarrow> found_poses s' k = found_poses s k)"

fun step_exec :: "'a step \<Rightarrow> executor" where
  "step_exec (Continue s) = s"
| "step_exec (LoopEnd s) = s"
| "step_exec (Returned v s) = s"
| "step_exec (Raised e s) = s"

fun body_event :: "event \<Rightarrow> bool" where
  "body_event (Feedback sev l txt) = True"
| "body_event CancelGoal = True"
| "body_event (Sleep n) = True"
| "body_event e = False"

fun nav_event :: "event \<Rightarrow> bool" where
  "nav_event (SendGoal (FollowGPSWaypoints p)) = True"
| "nav_event e = body_event e"

fun spin_event :: "event \<Rightarrow> bool" where
  "spin_event (SendGoal (Spin a n)) = True"
| "spin_event e = body_event e"

definition not_teleop :: "event \<Rightarrow> bool" where
  "not_teleop e \<longleftrightarrow> e \<noteq> Trigger Teleop"

definition exec_of :: "'a run \<Rightarrow> executor" where
  "exec_of x = fst (snd x)"

text \<open>\<open>emits ok s s'\<close>: from \<open>s\<close> to \<open>s'\<close> events were only added, all satisfying \<open>ok\<close>.\<close>

definition emits :: "(event \<Rightarrow> bool) \<Rightarrow> executor \<Rightarrow> executor \<Rightarrow> bool" where
  "emits ok s s' \<longleftrightarrow> (\<exists>evs. events s' = events s @ evs \<and> list_all ok evs)"

text \<open>The events of a search: a call of \<^verbatim>\<open>spin_search\<close> or \<^verbatim>\<open>hex_search\<close>, and a goal sent to
  the spin server.\<close>

fun search_event :: "event \<Rightarrow> bool" where
  "search_event (Enter_spin_search src) = True"
| "search_event Enter_hex_search = True"
| "search_event (SendGoal (Spin a n)) = True"
| "search_event e = False"

text \<open>The events of a plain waypoint leg.\<close>

fun plain_event :: "event \<Rightarrow> bool" where
  "plain_event (Enter_gps_nav d src u) = True"
| "plain_event (Trigger Arrival) = True"
| "plain_event (Trigger Auto) = True"
| "plain_event e = nav_event e"

text \<open>A message is wanted by the node when the current leg is of its category and one of
  its detections carries the leg's identifier: the tag number of a marker leg, a label
  occurring in the name of an object leg.\<close>

fun wanted :: "executor \<Rightarrow> msg \<Rightarrow> bool" where
  "wanted s (ArucoDetection frame_id stamp markers) =
     (leg s \<in> set aruco_legs \<and> (\<exists>m\<in>set markers. Some (marker_id m) = tags (leg s)))"
| "wanted s (ObjectsStamped frame_id stamp objects) =
     (leg s \<in> set obj_legs \<and> (\<exists>obj\<in>set objects. sublist (label obj) (leg s)))"
| "wanted s m = False"

text \<open>The poses that the detections of an object message yield, in the order of the message:
  a detection yields its converted pose when its label occurs in the name of the current leg
  and the conversion succeeds, and nothing otherwise.\<close>

definition accepted :: "collaborators \<Rightarrow> executor \<Rightarrow> string \<Rightarrow> nat \<Rightarrow> detected_object list \<Rightarrow> geopose list" where
  "accepted ext s frame_id stamp objects =
     List.map_filter (\<lambda>obj. if sublist (label obj) (leg s)
                            then pose_to_geopose ext s (obj_pose obj) frame_id stamp else None) objects"

text \<open>The outline of a run: its events without the informative feedback and the sleeps.\<close>

fun notable :: "event \<Rightarrow> bool" where
  "notable (Feedback Info l txt) = False"
| "notable (Sleep n) = False"
| "notable e = True"

definition outline :: "'a run \<Rightarrow> event list" where
  "outline x = filter notable (events (exec_of x))"

text \<open>The end of the events of a run that unwinds from an observed cancel request: the sleep
  of the pass (or the warning of the wait for a fix) in which the request was seen, then the
  one cancellation of \<^verbatim>\<open>cancelTask\<close> when a goal result is outstanding.\<close>

definition cancel_tail :: "executor \<Rightarrow> bool" where
  "cancel_tail s \<longleftrightarrow>
     (\<exists>pre c. events s = pre @ c # (if result_future s = None then [] else [CancelGoal])
              \<and> (c = Sleep 100 \<or> (\<exists>l. c = Feedback Warn l ''Waiting on a GPS fix...'')))"

definition cancels_cleanly :: "'a run \<Rightarrow> bool" where
  "cancels_cleanly x \<longleftrightarrow> (fst x = Raise cancel_text \<longrightarrow> cancel_tail (exec_of x))"

text \<open>The calls among the events of a run.\<close>

fun is_call :: "event \<Rightarrow> bool" where
  "is_call (Enter_gps_nav d src u) = True"
| "is_call (Enter_spin_search src) = True"
| "is_call Enter_hex_search = True"
| "is_call e = False"

definition calls :: "event list \<Rightarrow> event list" where
  "calls evs = filter is_call evs"

text \<open>The itinerary of a run: its calls together with the goals it sent to the motion
  servers and the cancellations it sent them.\<close>

fun on_route :: "event \<Rightarrow> bool" where
  "on_route (SendGoal g) = True"
| "on_route CancelGoal = True"
| "on_route e = is_call e"

definition itinerary :: "event list \<Rightarrow> event list" where
  "itinerary evs = filter on_route evs"

text \<open>The path that \<^verbatim>\<open>gps_nav\<close> has planned to a destination, by the planner of that name, from
  the fix the node holds.\<close>

definition route :: "collaborators \<Rightarrow> string \<Rightarrow> geopose option \<Rightarrow> geopose \<Rightarrow> geopose list" where
  "route ext planner fix dest =
     (if planner = ''basicPathPlanner'' then basicPathPlanner ext fix dest
      else terrainPathPlanner ext fix dest)"

text \<open>The cancellation with which a pass of a polling loop leaves the loop, and with which a
  navigation or a spin search ends: one when a pose is returned or the cancel request was
  seen, none otherwise.\<close>

fun parting :: "'a step \<Rightarrow> event list" where
  "parting (Returned v s) = [CancelGoal]"
| "parting (Raised e s) = (if e = cancel_text then [CancelGoal] else [])"
| "parting (Continue s) = []"
| "parting (LoopEnd s) = []"

fun withdrawn :: "'a option outcome \<Rightarrow> event list" where
  "withdrawn (Ret (Some p)) = [CancelGoal]"
| "withdrawn (Ret None) = []"
| "withdrawn (Raise e) = (if e = cancel_text then [CancelGoal] else [])"
| "withdrawn Pending = []"

text \<open>The itinerary of a whole hex sweep: for each offset, numbered from \<open>i\<close>, the call of the
  navigation to its vertex, the goal sent for it (the path planned to the vertex from the
  fix \<open>fix i\<close> held at that moment), the call of the spin search there and the goal of the
  spin.\<close>

fun hex_plan :: "collaborators \<Rightarrow> string \<Rightarrow> (nat \<Rightarrow> geopose option) \<Rightarrow> geopose \<Rightarrow> nat
                 \<Rightarrow> (real \<times> real) list \<Rightarrow> event list" where
  "hex_plan ext planner fix base_wp i [] = []"
| "hex_plan ext planner fix base_wp i (coord # coords) =
     Enter_gps_nav (hex_wp base_wp coord) (hex_src i) False
     # SendGoal (FollowGPSWaypoints (route ext planner (fix i) (hex_wp base_wp coord)))
     # Enter_spin_search (hex_src i)
     # SendGoal (Spin (314 / 100) 10)
     # hex_plan ext planner fix base_wp (Suc i) coords"

text \<open>The itinerary of a convergence loop that ran to its end, from the fixes held at the
  start of its navigations and their destinations: every navigation but the last is
  cancelled.\<close>

fun convergence :: "collaborators \<Rightarrow> string \<Rightarrow> string \<Rightarrow> (geopose option \<times> geopose) list \<Rightarrow> event list" where
  "convergence ext planner src [] = []"
| "convergence ext planner src [(fix, d)] =
     [Enter_gps_nav d src True, SendGoal (FollowGPSWaypoints (route ext planner fix d))]"
| "convergence ext planner src ((fix, d) # nav # navs) =
     Enter_gps_nav d src True
     # SendGoal (FollowGPSWaypoints (route ext planner fix d))
     # CancelGoal
     # convergence ext planner src (nav # navs)"

text \<open>A chain of destinations, each significantly away from the one before.\<close>

fun restarts :: "collaborators \<Rightarrow> geopose \<Rightarrow> geopose list \<Rightarrow> bool" where
  "restarts ext d [] = True"
| "restarts ext d (d' # ds) = (significant_change ext d' d \<and> restarts ext d' ds)"

text \<open>The highlights of a run: its mode triggers and its error and fatal feedback.\<close>

fun highlight :: "event \<Rightarrow> bool" where
  "highlight (Trigger m) = True"
| "highlight (Feedback Error l txt) = True"
| "highlight (Feedback Fatal l txt) = True"
| "highlight e = False"

definition highlights :: "'a run \<Rightarrow> event list" where
  "highlights x = filter highlight (events (exec_of x))"

definition count_trigger :: "mode \<Rightarrow> 'a run \<Rightarrow> nat" where
  "count_trigger m x = length (filter (\<lambda>e. e = Trigger m) (events (exec_of x)))"

subsection \<open>A simulated environment\<close>

definition sim_ext :: collaborators where
  "sim_ext = \<lparr>tf_transform = (\<lambda>frame_id stamp p. Some p),
     utm_to_latlon = (\<lambda>x y z h. (x, y)),
     utm_from_latlon_zone = (\<lambda>lat lon. 12),
     basicPathPlanner = (\<lambda>src dest. [dest]), terrainPathPlanner = (\<lambda>src dest. [dest]),
     bruteOrderPlanner = (\<lambda>ls w g. ls), greedyOrderPlanner = (\<lambda>ls w g. ls),
     terrainOrderPlanner = (\<lambda>ls w g. ls), noOrderPlanner = (\<lambda>ls w g. ls),
     float_minus = (\<lambda>a b. a - b)\<rparr>"

definition sim_node :: executor where
  "sim_node = \<lparr>leg = ''end'', legs = [], wps = [], found_poses = (\<lambda>_. None),
     filtered_gps = Some (latLonYaw2Geopose 40 (- 111)), zone = Some 12, hemisphere = Some ''N'',
     path_planner = ''basicPathPlanner'', order_planner = ''noOrderPlanner'',
     cancel_flag = False, is_cancel_requested = False, result_future = None, status = None,
     events = []\<rparr>"

definition idle :: tick where
  "idle = \<lparr>msgs = [], server_ready = True, goal_accepted = True, goal_result = None,
            node_state = None\<rparr>"

definition active :: tick where
  "active = idle\<lparr>node_state := Some ''active''\<rparr>"

definition arrived :: tick where
  "arrived = idle\<lparr>goal_result := Some STATUS_SUCCEEDED\<rparr>"

definition sim_wps :: "waypoint list" where
  "sim_wps = [\<lparr>wp_leg = ''gps1'', wp_latitude = 40001 / 1000, wp_longitude = - 111001 / 1000\<rparr>,
              \<lparr>wp_leg = ''aruco1'', wp_latitude = 40002 / 1000, wp_longitude = - 111002 / 1000\<rparr>]"

definition sim_object :: "string \<Rightarrow> detected_object" where
  "sim_object l = \<lparr>label = l, position = (40003 / 1000, - 111003 / 1000, 0)\<rparr>"


definition sim_marker :: "nat \<Rightarrow> real \<Rightarrow> real \<Rightarrow> marker" where
  "sim_marker n x y = \<lparr>marker_id = n, marker_pose =
     \<lparr>position_x = x, position_y = y, position_z = 0,
      orientation_x = 0, orientation_y = 0, orientation_z = 0, orientation_w = 1\<rparr>\<rparr>"

text \<open>Marker 1 seen at a latitude 0.00002 degrees north of the waypoint of \<open>aruco1\<close>.\<close>

definition sighting :: tick where
  "sighting = idle\<lparr>msgs := [ArucoDetection ''zed'' 0 [sim_marker 1 (4000202 / 100000) (- 111002 / 1000)]]\<rparr>"


definition cancelling :: tick where
  "cancelling = idle\<lparr>msgs := [CancelRequest]\<rparr>"

definition gps1_wp :: geopose where
  "gps1_wp = latLonYaw2Geopose (40001 / 1000) (- 111001 / 1000)"

definition aruco1_wp :: geopose where
  "aruco1_wp = latLonYaw2Geopose (40002 / 1000) (- 111002 / 1000)"

definition aliens :: result where
  "aliens = \<lparr>terminal_state = Abort, result_msg = ''It was the aliens, I'm telling you''\<rparr>"

definition small_step :: result where
  "small_step = \<lparr>terminal_state = Succeed,
                  result_msg = ''One small step for a rover, one giant leap for roverkind''\<rparr>"


text \<open>The end-to-end scenario: Nav2 becomes active; the navigation to \<open>gps1\<close> is accepted
  and succeeds; the navigation to \<open>aruco1\<close> succeeds with no detection; the marker is seen
  during the spin search; the navigation to the marker's pose succeeds while the tracked pose
  stays what it was.\<close>

definition scenario :: "tick list" where
  "scenario = [idle, active,
               idle, idle, arrived,
               idle, idle, arrived,
               idle, idle, sighting,
               idle, idle, idle, arrived]"

definition marker_pose1 :: geopose where
  "marker_pose1 = latLonYaw2Geopose (4000202 / 100000) (- 111002 / 1000)"


definition arrived_cancelling :: tick where
  "arrived_cancelling = arrived\<lparr>msgs := [CancelRequest]\<rparr>"


text \<open>A node on the leg \<open>aruco1\<close> that tracks the marker at \<open>marker_pose1\<close>, and a tick in
  which the marker is seen 0.00001 degrees further north.\<close>

definition tracking_node :: executor where
  "tracking_node = sim_node\<lparr>leg := ''aruco1'', wps := sim_wps,
                             found_poses := (\<lambda>_. None)(''aruco1'' := Some marker_pose1)\<rparr>"

definition marker_pose2 :: geopose where
  "marker_pose2 = latLonYaw2Geopose (4000203 / 100000) (- 111002 / 1000)"

definition resighting :: tick where
  "resighting = idle\<lparr>msgs := [ArucoDetection ''zed'' 1 [sim_marker 1 (4000203 / 100000) (- 111002 / 1000)]]\<rparr>"


text \<open>A hex sweep around the waypoint of \<open>aruco1\<close>: nothing is seen at the first two
  vertices, and the marker is seen on the way to the third.\<close>

definition searching_node :: executor where
  "searching_node = sim_node\<lparr>leg := ''aruco1'', wps := sim_wps\<rparr>"

definition sweep :: "tick list" where
  "sweep = [idle, idle, arrived, idle, idle, arrived,
            idle, idle, arrived, idle, idle, arrived,
            idle, idle, sighting]"


text \<open>A motion task that is accepted and succeeds with nothing seen, and fourteen of them: the
  navigation to a target's waypoint, the spin search there and the six vertices of the hex
  sweep, each with its spin search.\<close>

definition uneventful :: "tick list" where
  "uneventful = [idle, idle, arrived]"

definition fruitless :: "tick list" where
  "fruitless = uneventful @ uneventful @ uneventful @ uneventful @ uneventful @ uneventful @ uneventful
               @ uneventful @ uneventful @ uneventful @ uneventful @ uneventful @ uneventful @ uneventful"

section \<open>What each function may change\<close>

subsection \<open>Python's substring test\<close>

lemma str_in_sublist: "str_in a b \<longleftrightarrow> sublist a b"
  by (induction b) (auto simp: sublist_Cons_right)

subsection \<open>What the callbacks touch\<close>

lemma aruco_marker_frame:
  "leg (aruco_marker ext f st s m) = leg s"
  "events (aruco_marker ext f st s m) = events s"
  "wps (aruco_marker ext f st s m) = wps s"
  "path_planner (aruco_marker ext f st s m) = path_planner s"
  "result_future (aruco_marker ext f st s m) = result_future s"
  "status (aruco_marker ext f st s m) = status s"
  "k \<noteq> leg s \<Longrightarrow> found_poses (aruco_marker ext f st s m) k = found_poses s k"
  by (auto simp: aruco_marker_def split: option.splits)

lemma obj_detection_frame:
  "leg (obj_detection ext f st s obj) = leg s"
  "events (obj_detection ext f st s obj) = events s"
  "wps (obj_detection ext f st s obj) = wps s"
  "path_planner (obj_detection ext f st s obj) = path_planner s"
  "result_future (obj_detection ext f st s obj) = result_future s"
  "status (obj_detection ext f st s obj) = status s"
  "k \<noteq> leg s \<Longrightarrow> found_poses (obj_detection ext f st s obj) k = found_poses s k"
  by (auto simp: obj_detection_def split: option.splits)

lemma untouched_refl: "untouched s s"
  by (simp add: untouched_def)

lemma untouched_trans: "untouched a b \<Longrightarrow> untouched b c \<Longrightarrow> untouched a c"
  by (simp add: untouched_def)

lemma foldl_untouched:
  "(\<And>s x. untouched s (f s x)) \<Longrightarrow> untouched s (foldl f s xs)"
proof (induction xs arbitrary: s)
  case Nil
  show ?case by (simp add: untouched_refl)
next
  case (Cons x xs)
  have "untouched s (f s x)" by (rule Cons.prems)
  moreover have "untouched (f s x) (foldl f (f s x) xs)" by (rule Cons.IH) (rule Cons.prems)
  ultimately show ?case by (auto intro: untouched_trans)
qed

lemma callback_untouched: "untouched s (callback ext s m)"
proof (cases m)
  case (NavSatFix lat lon)
  then show ?thesis by (simp add: untouched_def gps_callback_def Let_def)
next
  case (ArucoDetection f st ms)
  have "untouched s (foldl (aruco_marker ext f st) s ms)"
    by (rule foldl_untouched) (simp add: untouched_def aruco_marker_frame)
  with ArucoDetection show ?thesis by (simp add: aruco_callback_def untouched_refl)
next
  case (ObjectsStamped f st os)
  have "untouched s (foldl (obj_detection ext f st) s os)"
    by (rule foldl_untouched) (simp add: untouched_def obj_detection_frame)
  with ObjectsStamped show ?thesis by (simp add: obj_callback_def untouched_refl)
next
  case CancelRequest
  then show ?thesis by (simp add: untouched_def cancel_callback_def)
qed

lemma deliver_untouched: "untouched s (deliver ext t s)"
  unfolding deliver_def by (rule foldl_untouched) (rule callback_untouched)

subsection \<open>What the mission thread touches\<close>

lemma steps_refl: "steps ok s s"
  by (simp add: steps_def)

lemma steps_trans: "steps ok a b \<Longrightarrow> steps ok b c \<Longrightarrow> steps ok a c"
proof -
  assume ab: "steps ok a b" and bc: "steps ok b c"
  from ab obtain e1 where e1: "events b = events a @ e1" "list_all ok e1"
    by (auto simp: steps_def)
  from bc obtain e2 where e2: "events c = events b @ e2" "list_all ok e2"
    by (auto simp: steps_def)
  from e1 e2 have "events c = events a @ (e1 @ e2) \<and> list_all ok (e1 @ e2)" by simp
  then have "\<exists>evs. events c = events a @ evs \<and> list_all ok evs" by blast
  with ab bc show ?thesis by (simp add: steps_def)
qed

lemma steps_mono: "steps ok s s' \<Longrightarrow> (\<And>e. ok e \<Longrightarrow> ok' e) \<Longrightarrow> steps ok' s s'"
  unfolding steps_def by (auto simp: list_all_iff)

lemma steps_untouched: "untouched s s' \<Longrightarrow> steps ok s s'"
  by (simp add: steps_def untouched_def)

lemma steps_emit: "ok e \<Longrightarrow> steps ok s (emit e s)"
  by (simp add: steps_def emit_def)

lemma steps_deliver: "steps ok s (deliver ext t s)"
  by (rule steps_untouched) (rule deliver_untouched)

lemma steps_future: "steps ok s (s\<lparr>result_future := f\<rparr>)"
  by (simp add: steps_def)

lemma steps_future_status: "steps ok s (s\<lparr>result_future := f, status := x\<rparr>)"
  by (simp add: steps_def)

lemma poll_steps:
  assumes body: "\<And>t s. steps ok s (step_exec (body t s))"
    and run: "poll body ts s = (r, s', ts')"
  shows "steps ok s s'"
  using run
proof (induction ts arbitrary: s)
  case Nil
  then show ?case by (simp add: steps_refl)
next
  case (Cons t ts)
  have b: "steps ok s (step_exec (body t s))" by (rule body)
  show ?case
  proof (cases "body t s")
    case (Continue s1)
    with Cons.prems have "poll body ts s1 = (r, s', ts')" by simp
    then have "steps ok s1 s'" by (rule Cons.IH)
    with b Continue show ?thesis by (auto intro: steps_trans)
  next
    case (LoopEnd s1)
    with Cons.prems b show ?thesis by auto
  next
    case (Returned v s1)
    with Cons.prems b show ?thesis by auto
  next
    case (Raised e s1)
    with Cons.prems b show ?thesis by auto
  qed
qed

lemma and_then_cases:
  assumes "and_then r k = (out, s', ts')"
  obtains (ret) v s1 ts1 where "r = (Ret v, s1, ts1)" "k v ts1 s1 = (out, s', ts')"
    | (raise) e where "r = (Raise e, s', ts')" "out = Raise e"
    | (pending) "r = (Pending, s', ts')" "out = Pending"
  using assms by (auto simp: and_then_def split: prod.splits outcome.splits)

lemma and_then_steps:
  assumes run: "and_then r k = (out, s', ts')"
    and first: "\<And>v s1 ts1. r = (v, s1, ts1) \<Longrightarrow> steps ok s s1"
    and rest: "\<And>v s1 ts1. r = (Ret v, s1, ts1) \<Longrightarrow> k v ts1 s1 = (out, s', ts') \<Longrightarrow> steps ok s1 s'"
  shows "steps ok s s'"
  using run
proof (cases rule: and_then_cases)
  case (ret v s1 ts1)
  then show ?thesis using first rest by (blast intro: steps_trans)
next
  case (raise e)
  then show ?thesis using first by blast
next
  case pending
  then show ?thesis using first by blast
qed

lemma steps_feedback:
  "ok (Feedback Info (leg s) txt) \<Longrightarrow> steps ok s (task_info txt s)"
  "ok (Feedback Warn (leg s) txt) \<Longrightarrow> steps ok s (task_warn txt s)"
  "ok (Feedback Error (leg s) txt) \<Longrightarrow> steps ok s (task_error txt s)"
  "ok (Feedback Fatal (leg s) txt) \<Longrightarrow> steps ok s (task_fatal txt s)"
  by (simp_all add: task_info_def task_warn_def task_error_def task_fatal_def steps_emit)

lemma steps_cancelTask: "ok CancelGoal \<Longrightarrow> steps ok s (cancelTask s)"
  by (simp add: cancelTask_def steps_emit steps_refl)

lemma steps_isTaskComplete: "steps ok s (snd (isTaskComplete t s))"
  by (auto simp: isTaskComplete_def steps_refl steps_future_status split: option.splits future.splits)

lemma steps_report_result:
  "(\<And>sev l txt. ok (Feedback sev l txt)) \<Longrightarrow> steps ok s (report_result what src s)"
  by (auto simp: report_result_def steps_feedback steps_refl split: task_result.splits)

lemma wait_for_server_steps: "steps ok s (step_exec (wait_for_server ext t s))"
  by (simp add: wait_for_server_def Let_def steps_deliver)

lemma send_goal_steps:
  assumes "ok (SendGoal g)" and "send_goal ext g ts s = (r, s', ts')"
  shows "steps ok s s'"
  using assms(2) unfolding send_goal_def
proof (rule and_then_steps)
  fix v s1 ts1
  assume "poll (wait_for_server ext) ts s = (v, s1, ts1)"
  then show "steps ok s s1" by (rule poll_steps [rotated]) (rule wait_for_server_steps)
next
  fix v s1 ts1
  assume "(case ts1 of [] \<Rightarrow> (Pending, emit (SendGoal g) s1, [])
           | t # ts' \<Rightarrow>
               let s1 = deliver ext t (emit (SendGoal g) s1)
               in if \<not> goal_accepted t then (Ret False, s1, ts')
                  else (Ret True, s1\<lparr>result_future := Some Waiting\<rparr>, ts')) = (r, s', ts')"
  then show "steps ok s1 s'"
    using assms(1)
    by (auto simp: Let_def split: list.splits if_splits
          intro: steps_emit steps_trans [OF steps_emit steps_deliver]
                 steps_trans [OF steps_trans [OF steps_emit steps_deliver] steps_future])
qed

lemma gps_nav_pass_steps: "steps nav_event s (step_exec (gps_nav_pass ext d src u t s))"
proof -
  let ?s0 = "deliver ext t s"
  obtain c s1 where c: "isTaskComplete t ?s0 = (c, s1)" by (cases "isTaskComplete t ?s0")
  then have "s1 = snd (isTaskComplete t ?s0)" by simp
  then have "steps nav_event ?s0 s1" by (simp add: steps_isTaskComplete)
  then have s1: "steps nav_event s s1" by (rule steps_trans [OF steps_deliver])
  have s2: "steps nav_event s (emit (Sleep 100) s1)"
    by (rule steps_trans [OF s1]) (simp add: steps_emit)
  have s3: "steps nav_event s (cancelTask (emit (Sleep 100) s1))"
    by (rule steps_trans [OF s2]) (simp add: steps_cancelTask)
  have s4: "steps nav_event s (emit (Sleep 500) (cancelTask
              (task_info (''Improved GPS location found'' @ src) (emit (Sleep 100) s1))))"
    by (rule steps_trans [OF s2], rule steps_trans [OF steps_feedback(1)], simp,
        rule steps_trans [OF steps_cancelTask], simp, rule steps_emit, simp)
  show ?thesis
    using c s1 s2 s3 s4
    by (auto simp: gps_nav_pass_def Let_def split: option.splits bool.splits)
qed

lemma spin_search_pass_steps: "steps spin_event s (step_exec (spin_search_pass ext t s))"
proof -
  let ?s0 = "deliver ext t s"
  obtain c s1 where c: "isTaskComplete t ?s0 = (c, s1)" by (cases "isTaskComplete t ?s0")
  then have "s1 = snd (isTaskComplete t ?s0)" by simp
  then have "steps spin_event ?s0 s1" by (simp add: steps_isTaskComplete)
  then have s1: "steps spin_event s s1" by (rule steps_trans [OF steps_deliver])
  have s2: "steps spin_event s (emit (Sleep 100) s1)"
    by (rule steps_trans [OF s1]) (simp add: steps_emit)
  have s3: "steps spin_event s (cancelTask (emit (Sleep 100) s1))"
    by (rule steps_trans [OF s2]) (simp add: steps_cancelTask)
  show ?thesis
    using c s1 s2 s3
    by (auto simp: spin_search_pass_def Let_def split: option.splits bool.splits)
qed

lemma gps_nav_steps:
  assumes "gps_nav ext d src u ts s = (r, s', ts')"
  shows "steps nav_event (emit (Enter_gps_nav d src u) s) s'"
proof -
  let ?s1 = "task_info (''Starting GPS navigation'' @ src) (emit (Enter_gps_nav d src u) s)"
  have start: "steps nav_event (emit (Enter_gps_nav d src u) s) ?s1"
    by (simp add: steps_feedback)
  show ?thesis
  proof (cases "plan_path ext ?s1 d")
    case None
    with assms start show ?thesis by (simp add: gps_nav_def Let_def)
  next
    case (Some path)
    with assms have run:
      "and_then (followGpsWaypoints ext path ts ?s1) (\<lambda>_ ts s.
         and_then (poll (gps_nav_pass ext d src u) ts s) (\<lambda>found ts s.
           case found of Some p \<Rightarrow> (Ret (Some p), s, ts)
           | None \<Rightarrow> (Ret None, report_result ''GPS navigation'' src s, ts))) = (r, s', ts')"
      by (simp add: gps_nav_def Let_def)
    have "steps nav_event ?s1 s'"
      using run
    proof (rule and_then_steps)
      fix v s1 ts1
      assume "followGpsWaypoints ext path ts ?s1 = (v, s1, ts1)"
      then show "steps nav_event ?s1 s1"
        unfolding followGpsWaypoints_def by (rule send_goal_steps [rotated]) simp
    next
      fix v s1 ts1
      assume "and_then (poll (gps_nav_pass ext d src u) ts1 s1) (\<lambda>found ts s.
           case found of Some p \<Rightarrow> (Ret (Some p), s, ts)
           | None \<Rightarrow> (Ret None, report_result ''GPS navigation'' src s, ts)) = (r, s', ts')"
      then show "steps nav_event s1 s'"
      proof (rule and_then_steps)
        fix v s2 ts2
        assume "poll (gps_nav_pass ext d src u) ts1 s1 = (v, s2, ts2)"
        then show "steps nav_event s1 s2"
          by (rule poll_steps [rotated]) (rule gps_nav_pass_steps)
      next
        fix v s2 ts2
        assume "(case v of Some p \<Rightarrow> (Ret (Some p), s2, ts2)
                 | None \<Rightarrow> (Ret None, report_result ''GPS navigation'' src s2, ts2)) = (r, s', ts')"
        then show "steps nav_event s2 s'"
          by (auto split: option.splits simp: steps_refl steps_report_result)
      qed
    qed
    with start show ?thesis by (rule steps_trans)
  qed
qed

lemma spin_search_steps:
  assumes "spin_search ext src ts s = (r, s', ts')"
  shows "steps spin_event (emit (Enter_spin_search src) s) s'"
proof -
  let ?s1 = "task_info (''Starting spin search'' @ src) (emit (Enter_spin_search src) s)"
  have start: "steps spin_event (emit (Enter_spin_search src) s) ?s1"
    by (simp add: steps_feedback)
  from assms have run:
    "and_then (spin ext (314 / 100) 10 ts ?s1) (\<lambda>_ ts s.
       and_then (poll (spin_search_pass ext) ts s) (\<lambda>found ts s.
         case found of Some p \<Rightarrow> (Ret (Some p), s, ts)
         | None \<Rightarrow> (Ret None, report_result ''Spin search'' src s, ts))) = (r, s', ts')"
    by (simp add: spin_search_def Let_def)
  have "steps spin_event ?s1 s'"
    using run
  proof (rule and_then_steps)
    fix v s1 ts1
    assume "spin ext (314 / 100) 10 ts ?s1 = (v, s1, ts1)"
    then show "steps spin_event ?s1 s1"
      unfolding spin_def by (rule send_goal_steps [rotated]) simp
  next
    fix v s1 ts1
    assume "and_then (poll (spin_search_pass ext) ts1 s1) (\<lambda>found ts s.
         case found of Some p \<Rightarrow> (Ret (Some p), s, ts)
         | None \<Rightarrow> (Ret None, report_result ''Spin search'' src s, ts)) = (r, s', ts')"
    then show "steps spin_event s1 s'"
    proof (rule and_then_steps)
      fix v s2 ts2
      assume "poll (spin_search_pass ext) ts1 s1 = (v, s2, ts2)"
      then show "steps spin_event s1 s2"
        by (rule poll_steps [rotated]) (rule spin_search_pass_steps)
    next
      fix v s2 ts2
      assume "(case v of Some p \<Rightarrow> (Ret (Some p), s2, ts2)
               | None \<Rightarrow> (Ret None, report_result ''Spin search'' src s2, ts2)) = (r, s', ts')"
      then show "steps spin_event s2 s'"
        by (auto split: option.splits simp: steps_refl steps_report_result)
    qed
  qed
  with start show ?thesis by (rule steps_trans)
qed

lemma nav_event_not_teleop: "nav_event e \<Longrightarrow> not_teleop e"
  by (cases e) (auto simp: not_teleop_def)

lemma spin_event_not_teleop: "spin_event e \<Longrightarrow> not_teleop e"
  by (cases e) (auto simp: not_teleop_def)

lemma gps_nav_steps':
  assumes "gps_nav ext d src u ts s = (r, s', ts')"
  shows "steps not_teleop s s'"
proof -
  have "steps not_teleop s (emit (Enter_gps_nav d src u) s)"
    by (simp add: steps_emit not_teleop_def)
  moreover have "steps not_teleop (emit (Enter_gps_nav d src u) s) s'"
    by (rule steps_mono [OF gps_nav_steps [OF assms]]) (rule nav_event_not_teleop)
  ultimately show ?thesis by (rule steps_trans)
qed

lemma spin_search_steps':
  assumes "spin_search ext src ts s = (r, s', ts')"
  shows "steps not_teleop s s'"
proof -
  have "steps not_teleop s (emit (Enter_spin_search src) s)"
    by (simp add: steps_emit not_teleop_def)
  moreover have "steps not_teleop (emit (Enter_spin_search src) s) s'"
    by (rule steps_mono [OF spin_search_steps [OF assms]]) (rule spin_event_not_teleop)
  ultimately show ?thesis by (rule steps_trans)
qed

lemma hex_visit_steps:
  "hex_visit ext base_wp i coords ts s = (r, s', ts') \<Longrightarrow> steps not_teleop s s'"
proof (induction coords arbitrary: i ts s)
  case Nil
  then show ?case by (simp add: steps_refl)
next
  case (Cons coord coords)
  from Cons.prems have run:
    "and_then (gps_nav ext (hex_wp base_wp coord) (hex_src i) False ts s) (\<lambda>found ts s.
       case found of Some p \<Rightarrow> (Ret (Some p), s, ts)
       | None \<Rightarrow> and_then (spin_search ext (hex_src i) ts s) (\<lambda>found ts s.
           case found of Some p \<Rightarrow> (Ret (Some p), s, ts)
           | None \<Rightarrow> hex_visit ext base_wp (Suc i) coords ts s)) = (r, s', ts')"
    by simp
  show ?case
    using run
  proof (rule and_then_steps)
    fix v s1 ts1
    assume "gps_nav ext (hex_wp base_wp coord) (hex_src i) False ts s = (v, s1, ts1)"
    then show "steps not_teleop s s1" by (rule gps_nav_steps')
  next
    fix v s1 ts1
    assume k: "(case v of Some p \<Rightarrow> (Ret (Some p), s1, ts1)
       | None \<Rightarrow> and_then (spin_search ext (hex_src i) ts1 s1) (\<lambda>found ts s.
           case found of Some p \<Rightarrow> (Ret (Some p), s, ts)
           | None \<Rightarrow> hex_visit ext base_wp (Suc i) coords ts s)) = (r, s', ts')"
    show "steps not_teleop s1 s'"
    proof (cases v)
      case (Some p)
      with k show ?thesis by (simp add: steps_refl)
    next
      case None
      with k have "and_then (spin_search ext (hex_src i) ts1 s1) (\<lambda>found ts s.
           case found of Some p \<Rightarrow> (Ret (Some p), s, ts)
           | None \<Rightarrow> hex_visit ext base_wp (Suc i) coords ts s) = (r, s', ts')" by simp
      then show ?thesis
      proof (rule and_then_steps)
        fix v s2 ts2
        assume "spin_search ext (hex_src i) ts1 s1 = (v, s2, ts2)"
        then show "steps not_teleop s1 s2" by (rule spin_search_steps')
      next
        fix v s2 ts2
        assume "(case v of Some p \<Rightarrow> (Ret (Some p), s2, ts2)
           | None \<Rightarrow> hex_visit ext base_wp (Suc i) coords ts2 s2) = (r, s', ts')"
        then show "steps not_teleop s2 s'"
          by (cases v) (auto simp: steps_refl dest: Cons.IH)
      qed
    qed
  qed
qed

lemma hex_search_steps:
  assumes "hex_search ext ts s = (r, s', ts')"
  shows "steps not_teleop s s'"
proof -
  let ?s1 = "task_info ''Starting hex search'' (emit Enter_hex_search s)"
  have start: "steps not_teleop s ?s1"
    by (rule steps_trans [OF steps_emit steps_feedback(1)]) (simp_all add: not_teleop_def)
  show ?thesis
  proof (cases "leg_waypoint (wps ?s1) (leg ?s1)")
    case None
    with assms start show ?thesis by (simp add: hex_search_def Let_def)
  next
    case (Some base_wp)
    with assms have "and_then (hex_visit ext base_wp 0 hex_coord ts ?s1) (\<lambda>found ts s.
        case found of Some p \<Rightarrow> (Ret (Some p), s, ts)
        | None \<Rightarrow> (Ret None, task_info ''Hex search completed'' s, ts)) = (r, s', ts')"
      by (simp add: hex_search_def Let_def)
    then have "steps not_teleop ?s1 s'"
    proof (rule and_then_steps)
      fix v s1 ts1
      assume "hex_visit ext base_wp 0 hex_coord ts ?s1 = (v, s1, ts1)"
      then show "steps not_teleop ?s1 s1" by (rule hex_visit_steps)
    next
      fix v s1 ts1
      assume "(case v of Some p \<Rightarrow> (Ret (Some p), s1, ts1)
        | None \<Rightarrow> (Ret None, task_info ''Hex search completed'' s1, ts1)) = (r, s', ts')"
      then show "steps not_teleop s1 s'"
        by (cases v) (auto simp: steps_refl steps_feedback not_teleop_def)
    qed
    with start show ?thesis by (rule steps_trans)
  qed
qed

lemma update_loop_steps:
  "update_loop ext src loc ts s = (r, s', ts') \<Longrightarrow> steps not_teleop s s'"
proof (induction ext src loc ts s rule: update_loop.induct)
  case (1 ext src loc ts s)
  obtain v s1 ts1 where g: "gps_nav ext loc src True ts s = (v, s1, ts1)"
    by (cases "gps_nav ext loc src True ts s")
  then have first: "steps not_teleop s s1" by (rule gps_nav_steps')
  note unfolded = "1.prems" [unfolded update_loop.simps [of ext src loc ts s]]
  show ?case
  proof (cases v)
    case (Ret found)
    show ?thesis
    proof (cases found)
      case None
      with Ret g unfolded first show ?thesis by simp
    next
      case (Some p)
      with Ret g unfolded have "update_loop ext src p ts1 s1 = (r, s', ts')" by simp
      with Some Ret g have "steps not_teleop s1 s'" by (intro "1.IH") auto
      with first show ?thesis by (rule steps_trans)
    qed
  next
    case (Raise e)
    with g unfolded first show ?thesis by simp
  next
    case Pending
    with g unfolded first show ?thesis by simp
  qed
qed

lemma exec_of_triple: "exec_of (r, s, ts) = s"
  by (simp add: exec_of_def)

lemma after_and_then:
  assumes "steps ok s0 (exec_of r)"
    and "\<And>v ts s. steps ok s0 s \<Longrightarrow> steps ok s0 (exec_of (k v ts s))"
  shows "steps ok s0 (exec_of (and_then r k))"
proof (cases r)
  case (fields out s ts)
  with assms show ?thesis
    by (cases out) (auto simp: and_then_def exec_of_def)
qed

lemma after_emit: "ok e \<Longrightarrow> steps ok s0 s \<Longrightarrow> steps ok s0 (emit e s)"
  by (blast intro: steps_trans steps_emit)

lemma after_feedback:
  "steps not_teleop s0 s \<Longrightarrow> steps not_teleop s0 (task_info txt s)"
  "steps not_teleop s0 s \<Longrightarrow> steps not_teleop s0 (task_warn txt s)"
  "steps not_teleop s0 s \<Longrightarrow> steps not_teleop s0 (task_error txt s)"
  unfolding task_info_def task_warn_def task_error_def
  by (rule after_emit, simp add: not_teleop_def, assumption)+

lemma after_gps_nav:
  "steps not_teleop s0 s \<Longrightarrow> steps not_teleop s0 (exec_of (gps_nav ext d src u ts s))"
  by (cases "gps_nav ext d src u ts s") (auto simp: exec_of_def intro: steps_trans gps_nav_steps')

lemma after_spin_search:
  "steps not_teleop s0 s \<Longrightarrow> steps not_teleop s0 (exec_of (spin_search ext src ts s))"
  by (cases "spin_search ext src ts s") (auto simp: exec_of_def intro: steps_trans spin_search_steps')

lemma after_hex_search:
  "steps not_teleop s0 s \<Longrightarrow> steps not_teleop s0 (exec_of (hex_search ext ts s))"
  by (cases "hex_search ext ts s") (auto simp: exec_of_def intro: steps_trans hex_search_steps)

lemma after_update_loop:
  "steps not_teleop s0 s \<Longrightarrow> steps not_teleop s0 (exec_of (update_loop ext src loc ts s))"
  by (cases "update_loop ext src loc ts s") (auto simp: exec_of_def intro: steps_trans update_loop_steps)

lemma after_signal_arrival:
  "steps not_teleop s0 s \<Longrightarrow> steps not_teleop s0 (exec_of (signal_arrival ts s))"
  unfolding signal_arrival_def trigger_def exec_of_triple
  by (intro after_emit after_feedback) (simp_all add: not_teleop_def)

lemmas after_rules = after_and_then after_gps_nav after_spin_search after_hex_search
  after_update_loop after_signal_arrival after_feedback steps_refl

lemma exec_leg_after:
  "steps not_teleop (s\<lparr>leg := l\<rparr>) (exec_of (exec_leg ext l ts s))"
  unfolding exec_leg_def Let_def
  by (auto simp: exec_of_triple intro!: after_rules split: option.splits)

lemma exec_leg_steps:
  "exec_leg ext l ts s = (r, s', ts') \<Longrightarrow> steps not_teleop (s\<lparr>leg := l\<rparr>) s'"
  using exec_leg_after [where s = s and l = l and ext = ext and ts = ts] by (simp add: exec_of_def)

section \<open>Properties of the executor\<close>

subsection \<open>Evaluating the model\<close>

lemma hex_src_digits:
  "hex_src 0 = '' (hex 0)''"
  "hex_src (Suc 0) = '' (hex 1)''"
  "hex_src (Suc (Suc 0)) = '' (hex 2)''"
  "hex_src (Suc (Suc (Suc 0))) = '' (hex 3)''"
  "hex_src (Suc (Suc (Suc (Suc 0)))) = '' (hex 4)''"
  "hex_src (Suc (Suc (Suc (Suc (Suc 0))))) = '' (hex 5)''"
  by code_simp+

lemmas model_defs = action_server_callback_def begin_task_def exec_autonomy_task_def exec_leg_def gps_nav_def
  spin_search_def hex_search_def signal_arrival_def print_string_def plan_order_def plan_path_def
  waitUntilNav2Active_def waitForNodeToActivate_def send_goal_def followGpsWaypoints_def spin_def
  cancelTask_def isTaskComplete_def getResult_def get_state_def wait_for_server_def
  gps_nav_pass_def spin_search_pass_def report_result_def found_check_def significant_change_def
  leg_waypoint_def hex_src_digits hex_wp_def and_then_def emit_def task_info_def task_warn_def
  task_error_def task_fatal_def trigger_def deliver_def cancel_callback_def gps_callback_def
  pose_to_geopose_def aruco_marker_def aruco_callback_def obj_pose_def obj_detection_def
  obj_callback_def latLonYaw2Geopose_def gps_legs_def aruco_legs_def obj_legs_def tags_def
  wait_time_def update_threshold_def hex_coord_def hex_scalar_def cancel_text_def str_legs_def
  Let_def

lemmas sim_defs = sim_ext_def sim_node_def idle_def active_def arrived_def sim_wps_def
  sim_object_def sim_marker_def sighting_def cancelling_def gps1_wp_def aruco1_wp_def aliens_def
  small_step_def outline_def exec_of_def count_trigger_def scenario_def marker_pose1_def
  arrived_cancelling_def tracking_node_def marker_pose2_def resighting_def calls_def
  searching_node_def sweep_def highlights_def uneventful_def fruitless_def itinerary_def

subsection \<open>Object detections\<close>

lemma obj_detection_leg: "leg (foldl (obj_detection ext f st) s objs) = leg s"
  by (induction objs arbitrary: s) (simp_all add: obj_detection_frame)

lemma obj_detection_changes:
  "found_poses (foldl (obj_detection ext f st) s objs) \<noteq> found_poses s
   \<Longrightarrow> \<exists>obj\<in>set objs. sublist (label obj) (leg s)"
proof (induction objs arbitrary: s)
  case Nil
  then show ?case by simp
next
  case (Cons obj objs)
  show ?case
  proof (cases "str_in (label obj) (leg s)")
    case True
    then show ?thesis by (simp add: str_in_sublist)
  next
    case False
    then have "obj_detection ext f st s obj = s" by (simp add: obj_detection_def)
    with Cons show ?thesis by auto
  qed
qed

lemma accepted_snoc:
  "accepted ext s f st (objs @ [obj]) =
     accepted ext s f st objs
     @ (if sublist (label obj) (leg s)
        then (case pose_to_geopose ext s (obj_pose obj) f st of Some p \<Rightarrow> [p] | None \<Rightarrow> [])
        else [])"
  by (auto simp: accepted_def List.map_filter_def split: option.splits)

lemma pose_to_geopose_found:
  "pose_to_geopose ext (s\<lparr>found_poses := fp\<rparr>) q f st = pose_to_geopose ext s q f st"
  by (auto simp: pose_to_geopose_def split: option.splits)

lemma obj_detections_stored:
  "foldl (obj_detection ext f st) s objs =
     (if accepted ext s f st objs = [] then s
      else s\<lparr>found_poses := (found_poses s)(leg s := Some (last (accepted ext s f st objs)))\<rparr>)"
proof (induction objs rule: rev_induct)
  case Nil
  show ?case by (simp add: accepted_def List.map_filter_def)
next
  case (snoc obj objs)
  let ?acc = "accepted ext s f st objs"
  let ?s' = "foldl (obj_detection ext f st) s objs"
  have l: "leg ?s' = leg s" by (rule obj_detection_leg)
  have p: "pose_to_geopose ext ?s' q f st = pose_to_geopose ext s q f st" for q
    by (simp add: snoc.IH pose_to_geopose_found)
  have step: "obj_detection ext f st ?s' obj =
      (if sublist (label obj) (leg s)
       then (case pose_to_geopose ext s (obj_pose obj) f st of
               Some q \<Rightarrow> ?s'\<lparr>found_poses := (found_poses ?s')(leg s := Some q)\<rparr>
             | None \<Rightarrow> ?s')
       else ?s')"
    by (simp add: obj_detection_def l p str_in_sublist split: option.splits)
  show ?case
  proof (cases "sublist (label obj) (leg s)")
    case False
    with step snoc.IH show ?thesis by (simp add: accepted_snoc)
  next
    case True
    show ?thesis
    proof (cases "pose_to_geopose ext s (obj_pose obj) f st")
      case None
      with True step snoc.IH show ?thesis by (simp add: accepted_snoc)
    next
      case (Some q)
      with True step have "foldl (obj_detection ext f st) s (objs @ [obj])
          = ?s'\<lparr>found_poses := (found_poses ?s')(leg s := Some q)\<rparr>"
        by simp
      also have "\<dots> = s\<lparr>found_poses := (found_poses s)(leg s := Some q)\<rparr>"
        by (simp add: snoc.IH)
      finally show ?thesis using True Some by (simp add: accepted_snoc)
    qed
  qed
qed

text \<open>C10. On an object leg a detection is accepted exactly when its label is a substring
  of the leg's name. Whatever the message, its detections are taken in their order; each
  whose label occurs in the name of the leg and whose pose converts yields that pose, every
  other detection yields nothing; the callback stores the last pose yielded under the current
  leg and leaves the node as it was when none is. Off an object leg the callback changes
  nothing. So a callback that changes the store carried a detection whose label occurs in
  the name; a message none of whose labels occurs in the name changes nothing; and a label
  that extends the name (the name followed by at least one more character) does not occur in
  it, while the name itself and the empty label do.\<close>

theorem obj_callback_accepts_substrings:
  "obj_callback ext s frame_id stamp objs =
     (if leg s \<in> set obj_legs \<and> accepted ext s frame_id stamp objs \<noteq> []
      then s\<lparr>found_poses := (found_poses s)(leg s := Some (last (accepted ext s frame_id stamp objs)))\<rparr>
      else s)
   \<and> accepted ext s frame_id stamp [] = []
   \<and> accepted ext s frame_id stamp (obj # objs) =
       (if sublist (label obj) (leg s)
        then (case pose_to_geopose ext s (obj_pose obj) frame_id stamp of Some p \<Rightarrow> [p] | None \<Rightarrow> [])
        else [])
       @ accepted ext s frame_id stamp objs
   \<and> (leg s \<in> set obj_legs \<and> obj \<in> set objs \<and> sublist (label obj) (leg s)
        \<and> pose_to_geopose ext s (obj_pose obj) frame_id stamp = Some p \<longrightarrow>
        found_poses (obj_callback ext s frame_id stamp objs) (leg s) \<noteq> None
        \<and> (\<exists>obj'\<in>set objs. sublist (label obj') (leg s)
              \<and> pose_to_geopose ext s (obj_pose obj') frame_id stamp
                  = found_poses (obj_callback ext s frame_id stamp objs) (leg s)))
   \<and> (found_poses (obj_callback ext s frame_id stamp objs) \<noteq> found_poses s \<longrightarrow>
        leg s \<in> set obj_legs \<and> (\<exists>obj\<in>set objs. sublist (label obj) (leg s)))
   \<and> ((\<forall>obj\<in>set objs. \<not> sublist (label obj) (leg s)) \<longrightarrow>
        obj_callback ext s frame_id stamp objs = s)
   \<and> (label obj = leg s @ c # cs \<longrightarrow> \<not> sublist (label obj) (leg s))
   \<and> sublist (leg s) (leg s) \<and> sublist [] (leg s)
   \<and> (str_in (label obj) (leg s) \<longleftrightarrow> sublist (label obj) (leg s))"
proof (intro conjI impI)
  show eq: "obj_callback ext s frame_id stamp objs =
     (if leg s \<in> set obj_legs \<and> accepted ext s frame_id stamp objs \<noteq> []
      then s\<lparr>found_poses := (found_poses s)(leg s := Some (last (accepted ext s frame_id stamp objs)))\<rparr>
      else s)"
    by (simp add: obj_callback_def obj_detections_stored)
  show "accepted ext s frame_id stamp [] = []"
    by (simp add: accepted_def List.map_filter_def)
  show "accepted ext s frame_id stamp (obj # objs) =
       (if sublist (label obj) (leg s)
        then (case pose_to_geopose ext s (obj_pose obj) frame_id stamp of Some p \<Rightarrow> [p] | None \<Rightarrow> [])
        else [])
       @ accepted ext s frame_id stamp objs"
    by (auto simp: accepted_def List.map_filter_def split: option.splits)
  show "sublist (leg s) (leg s)" and "sublist [] (leg s)" by simp_all
  show "str_in (label obj) (leg s) \<longleftrightarrow> sublist (label obj) (leg s)" by (rule str_in_sublist)
  {
    assume a: "leg s \<in> set obj_legs \<and> obj \<in> set objs \<and> sublist (label obj) (leg s)
        \<and> pose_to_geopose ext s (obj_pose obj) frame_id stamp = Some p"
    then have "p \<in> set (accepted ext s frame_id stamp objs)"
      by (force simp: accepted_def List.map_filter_def image_iff)
    then have ne: "accepted ext s frame_id stamp objs \<noteq> []" by auto
    with a eq have fp: "found_poses (obj_callback ext s frame_id stamp objs) (leg s)
        = Some (last (accepted ext s frame_id stamp objs))"
      by simp
    then show "found_poses (obj_callback ext s frame_id stamp objs) (leg s) \<noteq> None" by simp
    from ne have "last (accepted ext s frame_id stamp objs) \<in> set (accepted ext s frame_id stamp objs)"
      by (rule last_in_set)
    then obtain obj' where "obj' \<in> set objs" "sublist (label obj') (leg s)"
      "pose_to_geopose ext s (obj_pose obj') frame_id stamp = Some (last (accepted ext s frame_id stamp objs))"
      by (auto simp: accepted_def List.map_filter_def split: if_splits)
    with fp show "\<exists>obj'\<in>set objs. sublist (label obj') (leg s)
              \<and> pose_to_geopose ext s (obj_pose obj') frame_id stamp
                  = found_poses (obj_callback ext s frame_id stamp objs) (leg s)"
      by auto
  }
  {
    assume ch: "found_poses (obj_callback ext s frame_id stamp objs) \<noteq> found_poses s"
    then show "leg s \<in> set obj_legs" by (auto simp: obj_callback_def split: if_splits)
    with ch show "\<exists>obj\<in>set objs. sublist (label obj) (leg s)"
      by (auto simp: obj_callback_def dest: obj_detection_changes)
  }
  {
    assume "\<forall>obj\<in>set objs. \<not> sublist (label obj) (leg s)"
    then have "accepted ext s frame_id stamp objs = []"
      by (induction objs) (simp_all add: accepted_def List.map_filter_def)
    with eq show "obj_callback ext s frame_id stamp objs = s" by simp
  }
  {
    assume "label obj = leg s @ c # cs"
    then show "\<not> sublist (label obj) (leg s)"
      by (auto dest: sublist_length_le)
  }
qed

theorem obj_callback_accepts_substrings_witness:
  "leg (sim_node\<lparr>leg := ''mallet''\<rparr>) \<in> set obj_legs
   \<and> sim_object ''mallet'' \<in> set [sim_object ''bottle'', sim_object ''mallet'', sim_object ''mallets'']
   \<and> sublist (label (sim_object ''mallet'')) (leg (sim_node\<lparr>leg := ''mallet''\<rparr>))
   \<and> pose_to_geopose sim_ext (sim_node\<lparr>leg := ''mallet''\<rparr>) (obj_pose (sim_object ''mallet'')) ''zed'' 0
       = Some (latLonYaw2Geopose (40003 / 1000) (- 111003 / 1000))
   \<and> accepted sim_ext (sim_node\<lparr>leg := ''mallet''\<rparr>) ''zed'' 0
        [sim_object ''bottle'', sim_object ''mallet'', sim_object ''mallets'']
       = [latLonYaw2Geopose (40003 / 1000) (- 111003 / 1000)]
   \<and> obj_callback sim_ext (sim_node\<lparr>leg := ''mallet''\<rparr>) ''zed'' 0
        [sim_object ''bottle'', sim_object ''mallet'', sim_object ''mallets'']
       = sim_node\<lparr>leg := ''mallet'',
                   found_poses := (\<lambda>_. None)(''mallet'' := Some (latLonYaw2Geopose (40003 / 1000) (- 111003 / 1000)))\<rparr>
   \<and> found_poses (obj_callback sim_ext (sim_node\<lparr>leg := ''mallet''\<rparr>) ''zed'' 0
        [sim_object ''bottle'', sim_object ''mallet'', sim_object ''mallets'']) ''mallet'' \<noteq> None
   \<and> found_poses (obj_callback sim_ext (sim_node\<lparr>leg := ''mallet''\<rparr>) ''zed'' 0 [sim_object ''mall''])
       \<noteq> found_poses (sim_node\<lparr>leg := ''mallet''\<rparr>)
   \<and> (\<exists>obj\<in>set [sim_object ''mall'']. sublist (label obj) (leg (sim_node\<lparr>leg := ''mallet''\<rparr>)))
   \<and> \<not> sublist (label (sim_object ''bottle'')) (leg (sim_node\<lparr>leg := ''mallet''\<rparr>))
   \<and> obj_callback sim_ext (sim_node\<lparr>leg := ''mallet''\<rparr>) ''zed'' 0
        [sim_object ''bottle'', sim_object ''mallets''] = sim_node\<lparr>leg := ''mallet''\<rparr>
   \<and> label (sim_object ''mallets'') = leg (sim_node\<lparr>leg := ''mallet''\<rparr>) @ CHR ''s'' # []
   \<and> \<not> sublist (label (sim_object ''mallets'')) (leg (sim_node\<lparr>leg := ''mallet''\<rparr>))"
proof -
  let ?s = "sim_node\<lparr>leg := ''mallet''\<rparr>"
  let ?p = "latLonYaw2Geopose (40003 / 1000) (- 111003 / 1000)"
  let ?msg = "[sim_object ''bottle'', sim_object ''mallet'', sim_object ''mallets'']"
  note eq = obj_callback_accepts_substrings [where ext = sim_ext and s = ?s and frame_id = "''zed''" and stamp = 0, THEN conjunct1]
  note nil = obj_callback_accepts_substrings [where ext = sim_ext and s = ?s and frame_id = "''zed''" and stamp = 0, THEN conjunct2, THEN conjunct1]
  have a: "leg ?s \<in> set obj_legs" by (simp add: obj_legs_def)
  have a': "sim_object ''mallet'' \<in> set ?msg" by simp
  have b: "pose_to_geopose sim_ext ?s (obj_pose (sim_object l)) ''zed'' 0 = Some ?p" for l
    by (simp add: pose_to_geopose_def obj_pose_def sim_defs latLonYaw2Geopose_def)
  have c: "sublist (label (sim_object ''mallet'')) (leg ?s)"
    "sublist (label (sim_object ''mall'')) (leg ?s)"
    "\<not> sublist (label (sim_object ''bottle'')) (leg ?s)"
    by (simp_all add: sim_object_def sublist_code prefix_code)
  have d: "label (sim_object ''mallets'') = leg ?s @ CHR ''s'' # []"
    by (simp add: sim_object_def)
  from obj_callback_accepts_substrings [where ext = sim_ext and s = ?s and frame_id = "''zed''" and stamp = 0 and obj = "sim_object ''mallets''" and c = "CHR ''s''" and cs = "[]", THEN conjunct2, THEN conjunct2, THEN conjunct2, THEN conjunct2, THEN conjunct2, THEN conjunct2, THEN conjunct1] d
  have e: "\<not> sublist (label (sim_object ''mallets'')) (leg ?s)" by (rule mp)
  have acc: "accepted sim_ext ?s ''zed'' 0 ?msg = [?p]"
    by (simp only: obj_callback_accepts_substrings [where ext = sim_ext and s = ?s and frame_id = "''zed''" and stamp = 0 and obj = "sim_object ''bottle''" and objs = "[sim_object ''mallet'', sim_object ''mallets'']", THEN conjunct2, THEN conjunct2, THEN conjunct1]
          obj_callback_accepts_substrings [where ext = sim_ext and s = ?s and frame_id = "''zed''" and stamp = 0 and obj = "sim_object ''mallet''" and objs = "[sim_object ''mallets'']", THEN conjunct2, THEN conjunct2, THEN conjunct1]
          obj_callback_accepts_substrings [where ext = sim_ext and s = ?s and frame_id = "''zed''" and stamp = 0 and obj = "sim_object ''mallets''" and objs = "[]", THEN conjunct2, THEN conjunct2, THEN conjunct1]
          nil b c e if_True if_False option.case append.simps)
  have "obj_callback sim_ext ?s ''zed'' 0 ?msg
       = ?s\<lparr>found_poses := (found_poses ?s)(leg ?s := Some ?p)\<rparr>"
    using a by (subst eq) (simp add: acc)
  then have f: "obj_callback sim_ext ?s ''zed'' 0 ?msg
       = sim_node\<lparr>leg := ''mallet'', found_poses := (\<lambda>_. None)(''mallet'' := Some ?p)\<rparr>"
    by (simp add: sim_node_def)
  from obj_callback_accepts_substrings [where ext = sim_ext and s = ?s and frame_id = "''zed''" and stamp = 0 and objs = ?msg and obj = "sim_object ''mallet''" and p = ?p, THEN conjunct2, THEN conjunct2, THEN conjunct2, THEN conjunct1] a a' c(1) b
  have g: "found_poses (obj_callback sim_ext ?s ''zed'' 0 ?msg) ''mallet'' \<noteq> None"
    by simp
  have acc1: "accepted sim_ext ?s ''zed'' 0 [sim_object ''mall''] = [?p]"
    by (simp only: obj_callback_accepts_substrings [where ext = sim_ext and s = ?s and frame_id = "''zed''" and stamp = 0 and obj = "sim_object ''mall''" and objs = "[]", THEN conjunct2, THEN conjunct2, THEN conjunct1]
          nil b c if_True option.case append.simps)
  have "found_poses (obj_callback sim_ext ?s ''zed'' 0 [sim_object ''mall'']) ''mallet'' = Some ?p"
    using a by (subst eq) (simp add: acc1)
  moreover have "found_poses ?s ''mallet'' = None" by (simp add: sim_node_def)
  ultimately have h: "found_poses (obj_callback sim_ext ?s ''zed'' 0 [sim_object ''mall'']) \<noteq> found_poses ?s"
    by (metis option.distinct(1))
  from obj_callback_accepts_substrings [where ext = sim_ext and s = ?s and frame_id = "''zed''" and stamp = 0 and objs = "[sim_object ''mall'']", THEN conjunct2, THEN conjunct2, THEN conjunct2, THEN conjunct2, THEN conjunct1] h
  have i: "\<exists>obj\<in>set [sim_object ''mall'']. sublist (label obj) (leg ?s)"
    by blast
  from c(3) e have j: "\<forall>obj\<in>set [sim_object ''bottle'', sim_object ''mallets'']. \<not> sublist (label obj) (leg ?s)"
    by simp
  from obj_callback_accepts_substrings [where ext = sim_ext and s = ?s and frame_id = "''zed''" and stamp = 0 and objs = "[sim_object ''bottle'', sim_object ''mallets'']", THEN conjunct2, THEN conjunct2, THEN conjunct2, THEN conjunct2, THEN conjunct2, THEN conjunct1] j
  have k: "obj_callback sim_ext ?s ''zed'' 0 [sim_object ''bottle'', sim_object ''mallets''] = ?s"
    by (rule mp)
  from a a' c(1) b [of "''mallet''"] acc f g h i c(3) k d e show ?thesis by blast
qed

subsection \<open>The found-pose store\<close>

lemma aruco_marker_leg: "leg (foldl (aruco_marker ext f st) s ms) = leg s"
  by (induction ms arbitrary: s) (simp_all add: aruco_marker_frame)

lemma aruco_marker_changes:
  "found_poses (foldl (aruco_marker ext f st) s ms) \<noteq> found_poses s
   \<Longrightarrow> \<exists>m\<in>set ms. Some (marker_id m) = tags (leg s)"
proof (induction ms arbitrary: s)
  case Nil
  then show ?case by simp
next
  case (Cons m ms)
  show ?case
  proof (cases "Some (marker_id m) = tags (leg s)")
    case True
    then show ?thesis by simp
  next
    case False
    then have "aruco_marker ext f st s m = s" by (simp add: aruco_marker_def)
    with Cons show ?thesis by auto
  qed
qed

lemma callback_changes_wanted:
  assumes "found_poses (callback ext s m) \<noteq> found_poses s"
  shows "wanted s m"
proof (cases m)
  case (NavSatFix lat lon)
  with assms show ?thesis by (auto simp: gps_callback_def Let_def split: if_splits)
next
  case (ArucoDetection f st ms)
  with assms show ?thesis
    by (auto simp: aruco_callback_def split: if_splits dest: aruco_marker_changes)
next
  case (ObjectsStamped f st os)
  with assms show ?thesis
    by (auto simp: obj_callback_def split: if_splits dest: obj_detection_changes)
next
  case CancelRequest
  with assms show ?thesis by (simp add: cancel_callback_def)
qed

text \<open>A callback that the mission thread does not disturb writes the store for the current
  leg only, and only on a message of the leg's category that carries the leg's identifier;
  the execution of a leg, with its callbacks run to their end at tick boundaries, leaves the
  entries of all other labels as they were.\<close>

lemma undisturbed_callback_writes_current_leg:
  "(found_poses (callback ext s m) k \<noteq> found_poses s k \<longrightarrow> k = leg s \<and> wanted s m)
   \<and> leg (callback ext s m) = leg s
   \<and> (exec_leg ext l ts s = (r, s', ts') \<and> k \<noteq> l \<longrightarrow> found_poses s' k = found_poses s k)
   \<and> (found_check s = Some p \<longrightarrow> found_poses s (leg s) = Some p)"
proof (intro conjI impI)
  have u: "untouched s (callback ext s m)" by (rule callback_untouched)
  then show "leg (callback ext s m) = leg s" by (simp add: untouched_def)
  assume ch: "found_poses (callback ext s m) k \<noteq> found_poses s k"
  with u show "k = leg s" by (auto simp: untouched_def)
  from ch have "found_poses (callback ext s m) \<noteq> found_poses s" by auto
  then show "wanted s m" by (rule callback_changes_wanted)
next
  assume a: "exec_leg ext l ts s = (r, s', ts') \<and> k \<noteq> l"
  then have "steps not_teleop (s\<lparr>leg := l\<rparr>) s'" by (auto dest: exec_leg_steps)
  with a show "found_poses s' k = found_poses s k" by (simp add: steps_def)
next
  assume "found_check s = Some p"
  then show "found_poses s (leg s) = Some p" by (simp add: found_check_def split: if_splits)
qed

lemma run_collapse: "fst x = r \<Longrightarrow> x = (r, exec_of x, snd (snd x))"
  by (cases x) (simp add: exec_of_def)

text \<open>Run without interference, the steps of a callback compute the callback.\<close>

lemma interleave_Left:
  "interleave (aruco_step ext f st) (replicate n Stay) Over s = (Over, s)"
  "interleave (obj_step ext f st) (replicate n Stay) Over s = (Over, s)"
  by (induction n) simp_all

lemma aruco_legs_tagged: "l \<in> set aruco_legs \<Longrightarrow> \<exists>tag. tags l = Some tag"
  by (auto simp: aruco_legs_def tags_def)

lemma aruco_match_undisturbed:
  "leg s \<in> set aruco_legs \<Longrightarrow> 2 * length ms + 1 \<le> n \<Longrightarrow>
     interleave (aruco_step ext f st) (replicate n Stay) (Match ms) s
       = (Over, foldl (aruco_marker ext f st) s ms)"
proof (induction ms arbitrary: n s)
  case Nil
  then obtain n' where "n = Suc n'" by (cases n) auto
  then show ?case by (simp add: interleave_Left)
next
  case (Cons m ms)
  then obtain n' where n: "n = Suc (Suc (Suc n'))" "2 * length ms + 1 \<le> Suc n'"
    by (cases n; cases "n - 1"; cases "n - 2") auto
  from Cons.prems(1) obtain tag where tag: "tags (leg s) = Some tag"
    by (auto dest: aruco_legs_tagged)
  show ?case
  proof (cases "marker_id m = tag")
    case False
    with tag have "aruco_marker ext f st s m = s" by (auto simp: aruco_marker_def)
    moreover from n(2) have "2 * length ms + 1 \<le> Suc (Suc n')" by simp
    ultimately show ?thesis
      using False tag n(1) Cons.IH [OF Cons.prems(1), of "Suc (Suc n')"] by simp
  next
    case True
    show ?thesis
    proof (cases "pose_to_geopose ext s (marker_pose m) f st")
      case None
      with True tag have "aruco_marker ext f st s m = s" by (simp add: aruco_marker_def)
      moreover from n(2) have "2 * length ms + 1 \<le> Suc (Suc n')" by simp
      ultimately show ?thesis
        using True None tag n(1) Cons.IH [OF Cons.prems(1), of "Suc (Suc n')"] by simp
    next
      case (Some p)
      let ?s' = "s\<lparr>found_poses := (found_poses s)(leg s := Some p)\<rparr>"
      from True Some tag have am: "aruco_marker ext f st s m = ?s'" by (simp add: aruco_marker_def)
      from Cons.prems(1) have "leg ?s' \<in> set aruco_legs" by simp
      from Cons.IH [OF this n(2)] True Some tag n(1) am show ?thesis by simp
    qed
  qed
qed

lemma aruco_callback_undisturbed:
  assumes "2 * length ms + 2 \<le> n"
  shows "interleave (aruco_step ext f st) (replicate n Stay) (Guard ms) s
           = (Over, aruco_callback ext s f st ms)"
proof -
  from assms obtain n' where n: "n = Suc n'" "2 * length ms + 1 \<le> n'" by (cases n) auto
  show ?thesis
  proof (cases "leg s \<in> set aruco_legs")
    case True
    with n aruco_match_undisturbed [OF True n(2)] show ?thesis by (simp add: aruco_callback_def)
  next
    case False
    with n show ?thesis by (simp add: aruco_callback_def interleave_Left)
  qed
qed

lemma obj_match_undisturbed:
  "2 * length objs + 1 \<le> n \<Longrightarrow>
     interleave (obj_step ext f st) (replicate n Stay) (Match objs) s
       = (Over, foldl (obj_detection ext f st) s objs)"
proof (induction objs arbitrary: n s)
  case Nil
  then obtain n' where "n = Suc n'" by (cases n) auto
  then show ?case by (simp add: interleave_Left)
next
  case (Cons obj objs)
  then obtain n' where n: "n = Suc (Suc (Suc n'))" "2 * length objs + 1 \<le> Suc n'"
    by (cases n; cases "n - 1"; cases "n - 2") auto
  then have n2: "2 * length objs + 1 \<le> Suc (Suc n')" by simp
  show ?case
  proof (cases "str_in (label obj) (leg s)")
    case False
    then have "obj_detection ext f st s obj = s" by (simp add: obj_detection_def)
    with False n(1) Cons.IH [OF n2] show ?thesis by simp
  next
    case True
    show ?thesis
    proof (cases "pose_to_geopose ext s (obj_pose obj) f st")
      case None
      with True have "obj_detection ext f st s obj = s" by (simp add: obj_detection_def)
      with True None n(1) Cons.IH [OF n2] show ?thesis by simp
    next
      case (Some p)
      with True have "obj_detection ext f st s obj = s\<lparr>found_poses := (found_poses s)(leg s := Some p)\<rparr>"
        by (simp add: obj_detection_def)
      with True Some n(1) Cons.IH [OF n(2)] show ?thesis by simp
    qed
  qed
qed

lemma obj_callback_undisturbed:
  assumes "2 * length objs + 2 \<le> n"
  shows "interleave (obj_step ext f st) (replicate n Stay) (Guard objs) s
           = (Over, obj_callback ext s f st objs)"
proof -
  from assms obtain n' where n: "n = Suc n'" "2 * length objs + 1 \<le> n'" by (cases n) auto
  with obj_match_undisturbed [OF n(2)] show ?thesis
    by (simp add: obj_callback_def interleave_Left)
qed

text \<open>C9. The store is not written for the label of the current leg only. A detection that
  passed the callback's test while its leg was current is stored under the leg that is
  current at the store, and the callback reads \<^verbatim>\<open>self.leg\<close> anew for each. Marker 1 is
  detected while \<open>aruco1\<close> is the current leg; the guard and the test of the marker's number
  against the tag of \<open>aruco1\<close> pass; the mission thread enters the leg \<open>aruco2\<close>; the callback
  stores the pose of marker 1 under \<open>aruco2\<close>, whose tag is 2, and the lookup of that leg
  returns it. The same message handled after the mission thread has entered \<open>aruco2\<close> is
  discarded. An object labelled \<open>mallet\<close>, detected on the leg \<open>mallet\<close>, is stored in the
  same way under \<open>bottle\<close>, in whose name the label does not occur.\<close>

theorem stale_detection_stored_under_next_leg:
  "interleave (aruco_step sim_ext ''zed'' 0) [Stay, Stay, Enter_leg ''aruco2'', Stay]
     (Guard [sim_marker 1 (4000202 / 100000) (- 111002 / 1000)]) (sim_node\<lparr>leg := ''aruco1''\<rparr>)
     = (Over, sim_node\<lparr>leg := ''aruco2'',
                        found_poses := (\<lambda>_. None)(''aruco2'' := Some marker_pose1)\<rparr>)
   \<and> interleave (aruco_step sim_ext ''zed'' 0) [Stay, Stay]
       (Guard [sim_marker 1 (4000202 / 100000) (- 111002 / 1000)]) (sim_node\<lparr>leg := ''aruco1''\<rparr>)
       = (Store marker_pose1 [], sim_node\<lparr>leg := ''aruco1''\<rparr>)
   \<and> marker_id (sim_marker 1 (4000202 / 100000) (- 111002 / 1000)) = 1
   \<and> tags ''aruco1'' = Some 1 \<and> tags ''aruco2'' = Some 2
   \<and> found_check (sim_node\<lparr>leg := ''aruco2'',
                             found_poses := (\<lambda>_. None)(''aruco2'' := Some marker_pose1)\<rparr>)
       = Some marker_pose1
   \<and> \<not> wanted (sim_node\<lparr>leg := ''aruco2''\<rparr>)
         (ArucoDetection ''zed'' 0 [sim_marker 1 (4000202 / 100000) (- 111002 / 1000)])
   \<and> callback sim_ext (sim_node\<lparr>leg := ''aruco2''\<rparr>)
         (ArucoDetection ''zed'' 0 [sim_marker 1 (4000202 / 100000) (- 111002 / 1000)])
       = sim_node\<lparr>leg := ''aruco2''\<rparr>
   \<and> interleave (aruco_step sim_ext ''zed'' 0) [Enter_leg ''aruco2'', Stay, Stay, Stay]
       (Guard [sim_marker 1 (4000202 / 100000) (- 111002 / 1000)]) (sim_node\<lparr>leg := ''aruco1''\<rparr>)
       = (Over, sim_node\<lparr>leg := ''aruco2''\<rparr>)
   \<and> interleave (obj_step sim_ext ''zed'' 0) [Stay, Stay, Enter_leg ''bottle'', Stay]
       (Guard [sim_object ''mallet'']) (sim_node\<lparr>leg := ''mallet''\<rparr>)
       = (Over, sim_node\<lparr>leg := ''bottle'',
                          found_poses := (\<lambda>_. None)(''bottle'' :=
                            Some (latLonYaw2Geopose (40003 / 1000) (- 111003 / 1000)))\<rparr>)
   \<and> \<not> sublist ''mallet'' ''bottle''"
  by (simp add: model_defs sim_defs sublist_code prefix_code)

subsection \<open>Plain waypoint legs\<close>

lemma steps_leg: "steps ok s0 s \<Longrightarrow> leg s = leg s0"
  by (simp add: steps_def)

lemma nav_event_plain: "nav_event e \<Longrightarrow> plain_event e"
  by (cases e rule: plain_event.cases) auto

lemma after_gps_nav_plain:
  assumes "steps plain_event s0 s"
  shows "steps plain_event s0 (exec_of (gps_nav ext d src u ts s))"
proof (cases "gps_nav ext d src u ts s")
  case (fields r s' ts')
  have "steps plain_event s (emit (Enter_gps_nav d src u) s)" by (simp add: steps_emit)
  moreover have "steps plain_event (emit (Enter_gps_nav d src u) s) s'"
    by (rule steps_mono [OF gps_nav_steps [OF fields]]) (rule nav_event_plain)
  ultimately have "steps plain_event s0 s'" using assms by (blast intro: steps_trans)
  with fields show ?thesis by (simp add: exec_of_def)
qed

lemma after_feedback_plain:
  "steps plain_event s0 s \<Longrightarrow> steps plain_event s0 (task_info txt s)"
  "steps plain_event s0 s \<Longrightarrow> steps plain_event s0 (task_error txt s)"
  unfolding task_info_def task_error_def by (rule after_emit, simp, assumption)+

lemma after_signal_arrival_plain:
  "steps plain_event s0 s \<Longrightarrow> steps plain_event s0 (exec_of (signal_arrival ts s))"
  unfolding signal_arrival_def trigger_def exec_of_triple
  by (intro after_emit after_feedback_plain) simp_all

lemma gps_leg_not_target: "l \<in> set gps_legs \<Longrightarrow> l \<notin> set aruco_legs \<and> l \<notin> set obj_legs"
  by (auto simp: gps_legs_def aruco_legs_def obj_legs_def)

lemma after_and_then_leg:
  assumes "steps ok s0 (exec_of r)"
    and "\<And>v ts s. steps ok s0 s \<Longrightarrow> leg s = leg s0 \<Longrightarrow> steps ok s0 (exec_of (k v ts s))"
  shows "steps ok s0 (exec_of (and_then r k))"
  using assms by (intro after_and_then) (auto dest: steps_leg)

lemma exec_leg_plain:
  assumes "l \<in> set gps_legs"
  shows "steps plain_event (s\<lparr>leg := l\<rparr>) (exec_of (exec_leg ext l ts s))"
  unfolding exec_leg_def Let_def
  using assms gps_leg_not_target [OF assms]
  by (auto simp: exec_of_triple split: option.splits
        intro!: after_and_then_leg after_gps_nav_plain after_feedback_plain after_signal_arrival_plain
                steps_refl)

lemma plain_not_search: "plain_event e \<Longrightarrow> \<not> search_event e"
  by (cases e rule: search_event.cases) auto

text \<open>C8. A leg of the category plain waypoint (a leg of \<open>gps_legs\<close>) never invokes a search:
  whatever the environment does, the events of its execution hold no call of
  \<^verbatim>\<open>spin_search\<close>, no call of \<^verbatim>\<open>hex_search\<close> and no goal sent to the spin server.\<close>

theorem waypoint_leg_never_searches:
  "l \<in> set gps_legs \<Longrightarrow> exec_leg ext l ts s = (r, s', ts') \<Longrightarrow>
     \<exists>evs. events s' = events s @ evs \<and> (\<forall>e\<in>set evs. \<not> search_event e)"
proof -
  assume l: "l \<in> set gps_legs" and run: "exec_leg ext l ts s = (r, s', ts')"
  from exec_leg_plain [OF l, of s ext ts] run
  have "steps plain_event (s\<lparr>leg := l\<rparr>) s'" by (simp add: exec_of_def)
  then obtain evs where "events s' = events s @ evs" "list_all plain_event evs"
    by (auto simp: steps_def)
  then show ?thesis by (auto simp: list_all_iff dest: plain_not_search)
qed

theorem waypoint_leg_never_searches_witness:
  "''gps1'' \<in> set gps_legs
   \<and> fst (exec_leg sim_ext ''gps1'' [idle, idle, idle, arrived] (sim_node\<lparr>wps := sim_wps\<rparr>)) = Ret ()
   \<and> Trigger Arrival \<in> set (events (exec_of
         (exec_leg sim_ext ''gps1'' [idle, idle, idle, arrived] (sim_node\<lparr>wps := sim_wps\<rparr>))))
   \<and> (\<exists>evs. events (exec_of (exec_leg sim_ext ''gps1'' [idle, idle, idle, arrived] (sim_node\<lparr>wps := sim_wps\<rparr>)))
              = events (sim_node\<lparr>wps := sim_wps\<rparr>) @ evs
            \<and> (\<forall>e\<in>set evs. \<not> search_event e))"
proof -
  let ?x = "exec_leg sim_ext ''gps1'' [idle, idle, idle, arrived] (sim_node\<lparr>wps := sim_wps\<rparr>)"
  have a: "''gps1'' \<in> set gps_legs" by (simp add: gps_legs_def)
  have b: "fst ?x = Ret ()" by (simp add: model_defs sim_defs)
  have c: "Trigger Arrival \<in> set (events (exec_of ?x))"
    by (simp add: model_defs sim_defs)
  from waypoint_leg_never_searches [OF a run_collapse [OF b]] a b c show ?thesis by blast
qed

subsection \<open>The events of a whole task\<close>

lemma emits_refl: "emits ok s s"
  by (simp add: emits_def)

lemma emits_steps: "emits ok s0 s \<Longrightarrow> steps ok s s' \<Longrightarrow> emits ok s0 s'"
proof -
  assume a: "emits ok s0 s" and b: "steps ok s s'"
  from a obtain e1 where e1: "events s = events s0 @ e1" "list_all ok e1"
    by (auto simp: emits_def)
  from b obtain e2 where e2: "events s' = events s @ e2" "list_all ok e2"
    by (auto simp: steps_def)
  from e1 e2 have "events s' = events s0 @ (e1 @ e2) \<and> list_all ok (e1 @ e2)" by simp
  then show ?thesis unfolding emits_def by blast
qed

lemma emits_emit: "ok e \<Longrightarrow> emits ok s0 s \<Longrightarrow> emits ok s0 (emit e s)"
  by (auto simp: emits_def emit_def)

lemma emits_feedback:
  "emits not_teleop s0 s \<Longrightarrow> emits not_teleop s0 (task_info txt s)"
  "emits not_teleop s0 s \<Longrightarrow> emits not_teleop s0 (task_warn txt s)"
  "emits not_teleop s0 s \<Longrightarrow> emits not_teleop s0 (task_error txt s)"
  "emits not_teleop s0 s \<Longrightarrow> emits not_teleop s0 (task_fatal txt s)"
  unfolding task_info_def task_warn_def task_error_def task_fatal_def
  by (rule emits_emit, simp add: not_teleop_def, assumption)+

lemma emits_leg: "emits ok s0 s \<Longrightarrow> emits ok s0 (s\<lparr>leg := l\<rparr>)"
  by (simp add: emits_def)

lemma emits_legs: "emits ok s0 s \<Longrightarrow> emits ok s0 (s\<lparr>legs := ls\<rparr>)"
  by (simp add: emits_def)

lemma emits_and_then:
  assumes "emits ok s0 (exec_of r)"
    and "\<And>v ts s. emits ok s0 s \<Longrightarrow> emits ok s0 (exec_of (k v ts s))"
  shows "emits ok s0 (exec_of (and_then r k))"
proof (cases r)
  case (fields out s ts)
  with assms show ?thesis
    by (cases out) (auto simp: and_then_def exec_of_def)
qed

lemma emits_exec_leg:
  assumes "emits not_teleop s0 s"
  shows "emits not_teleop s0 (exec_of (exec_leg ext l ts s))"
proof -
  from assms have "emits not_teleop s0 (s\<lparr>leg := l\<rparr>)" by (rule emits_leg)
  then show ?thesis by (rule emits_steps) (rule exec_leg_after)
qed

lemma emits_exec_legs:
  "emits not_teleop s0 s \<Longrightarrow> emits not_teleop s0 (exec_of (exec_legs ext ls ts s))"
proof (induction ls arbitrary: ts s)
  case Nil
  then show ?case by (simp add: exec_of_triple)
next
  case (Cons l ls)
  show ?case
    unfolding exec_legs.simps
    by (intro emits_and_then emits_exec_leg Cons.prems Cons.IH)
qed

lemma emits_cancelTask: "emits not_teleop s0 s \<Longrightarrow> emits not_teleop s0 (cancelTask s)"
  by (simp add: cancelTask_def emits_emit not_teleop_def)

lemma emits_deliver: "emits ok s0 s \<Longrightarrow> emits ok s0 (deliver ext t s)"
  by (erule emits_steps) (rule steps_deliver)

lemma emits_wait_for_fix:
  "emits not_teleop s0 s \<Longrightarrow> emits not_teleop s0 (exec_of (wait_for_fix ext ts s))"
proof (induction ts arbitrary: s)
  case Nil
  then show ?case by (simp add: exec_of_triple)
next
  case (Cons t ts)
  let ?s1 = "task_warn ''Waiting on a GPS fix...'' (emit (Sleep 1000) (deliver ext t s))"
  have s1: "emits not_teleop s0 ?s1"
    by (intro emits_feedback emits_emit emits_deliver Cons.prems) (simp add: not_teleop_def)
  then have "emits not_teleop s0 (exec_of (wait_for_fix ext ts ?s1))" by (rule Cons.IH)
  with s1 Cons.prems show ?case
    by (simp add: exec_of_triple Let_def emits_cancelTask)
qed

lemma emits_poll:
  assumes "\<And>t s. steps ok s (step_exec (body t s))" and "emits ok s0 s"
  shows "emits ok s0 (exec_of (poll body ts s))"
proof (cases "poll body ts s")
  case (fields r s' ts')
  then have "steps ok s s'" by (rule poll_steps [rotated]) (rule assms(1))
  with assms(2) fields show ?thesis by (auto simp: exec_of_def intro: emits_steps)
qed

lemma get_state_steps: "steps not_teleop s (step_exec (get_state ext t s))"
  unfolding get_state_def Let_def
  by (auto intro!: steps_trans [OF steps_deliver steps_emit] simp: not_teleop_def)

lemma emits_waitUntilNav2Active:
  "emits not_teleop s0 s \<Longrightarrow> emits not_teleop s0 (exec_of (waitUntilNav2Active ext ts s))"
  unfolding waitUntilNav2Active_def waitForNodeToActivate_def
  by (intro emits_and_then emits_poll wait_for_server_steps get_state_steps)
     (simp_all add: exec_of_triple)

lemma emits_exec_autonomy_task:
  "emits not_teleop s0 s \<Longrightarrow> emits not_teleop s0 (exec_of (exec_autonomy_task ext ts s))"
  unfolding exec_autonomy_task_def Let_def
  by (auto simp: exec_of_triple split: option.splits
        intro!: emits_and_then emits_wait_for_fix emits_feedback emits_legs emits_leg
                emits_waitUntilNav2Active emits_exec_legs)

lemma exec_autonomy_task_no_teleop:
  assumes "exec_autonomy_task ext ts s = (r, s', ts')"
  shows "\<exists>evs. events s' = events s @ evs \<and> Trigger Teleop \<notin> set evs"
proof -
  have "emits not_teleop s (exec_of (exec_autonomy_task ext ts s))"
    by (rule emits_exec_autonomy_task) (rule emits_refl)
  with assms show ?thesis
    by (auto simp: exec_of_def emits_def list_all_iff not_teleop_def)
qed

text \<open>C2, as amended. Once the autonomy state has been triggered, that is for a request with
  at least one leg, every run that returns has triggered the teleop state exactly once, as its
  last action, whether the task succeeded or raised; a request without legs returns after a
  fatal feedback alone, with no mode trigger at all. The callback lets no exception out.\<close>

theorem teleop_once_after_autonomy:
  "(action_server_callback ext parsed_wps request_legs ts s = (Ret res, s', ts') \<longrightarrow>
      (request_legs \<noteq> [] \<longrightarrow>
         (\<exists>evs. events s' = events s @ Trigger Auto # evs @ [Trigger Teleop]
                \<and> Trigger Teleop \<notin> set evs))
      \<and> (request_legs = [] \<longrightarrow>
           events s' = events s @ [Feedback Fatal ''start'' ''No task legs provided'']))
   \<and> fst (action_server_callback ext parsed_wps request_legs ts s) \<noteq> Raise e"
proof (intro conjI impI)
  let ?s0 = "begin_task parsed_wps request_legs s"
  have ev0: "events (trigger Auto ?s0) = events s @ [Trigger Auto]"
    by (simp add: trigger_def emit_def begin_task_def)
  have legs0: "legs ?s0 = request_legs" by (simp add: begin_task_def)
  obtain r1 s1 ts1 where run: "exec_autonomy_task ext ts (trigger Auto ?s0) = (r1, s1, ts1)"
    by (cases "exec_autonomy_task ext ts (trigger Auto ?s0)")
  from exec_autonomy_task_no_teleop [OF run] ev0
  obtain evs where evs: "events s1 = events s @ Trigger Auto # evs" "Trigger Teleop \<notin> set evs"
    by auto
  show "fst (action_server_callback ext parsed_wps request_legs ts s) \<noteq> Raise e"
    using run legs0 by (cases r1) (auto simp: action_server_callback_def Let_def)
  assume ret: "action_server_callback ext parsed_wps request_legs ts s = (Ret res, s', ts')"
  {
    assume ne: "request_legs \<noteq> []"
    show "\<exists>evs. events s' = events s @ Trigger Auto # evs @ [Trigger Teleop]
                \<and> Trigger Teleop \<notin> set evs"
    proof (cases r1)
      case (Ret u)
      with ret run ne legs0 have "s' = trigger Teleop s1"
        by (auto simp: action_server_callback_def Let_def)
      with evs show ?thesis by (auto simp: trigger_def emit_def)
    next
      case (Raise x)
      with ret run ne legs0 have "s' = trigger Teleop (task_fatal x s1)"
        by (auto simp: action_server_callback_def Let_def)
      then have "events s' = events s @ Trigger Auto # (evs @ [Feedback Fatal (leg s1) x]) @ [Trigger Teleop]"
        using evs by (simp add: trigger_def task_fatal_def emit_def)
      moreover have "Trigger Teleop \<notin> set (evs @ [Feedback Fatal (leg s1) x])"
        using evs by simp
      ultimately show ?thesis by blast
    next
      case Pending
      with ret run ne legs0 show ?thesis
        by (auto simp: action_server_callback_def Let_def)
    qed
  }
  {
    assume "request_legs = []"
    with ret show "events s' = events s @ [Feedback Fatal ''start'' ''No task legs provided'']"
      by (auto simp: action_server_callback_def Let_def begin_task_def task_fatal_def emit_def)
  }
qed

text \<open>The claim as stated fails on the empty request: the callback returns its result and
  no teleop trigger was issued.\<close>

theorem teleop_on_empty_request_counterexample:
  "fst (action_server_callback sim_ext sim_wps [] [] sim_node)
     = Ret \<lparr>terminal_state = Abort, result_msg = ''Well that was less-than-interstellar of you''\<rparr>
   \<and> Trigger Teleop \<notin> set (events (exec_of (action_server_callback sim_ext sim_wps [] [] sim_node)))"
  by (simp add: action_server_callback_def begin_task_def Let_def exec_of_def task_fatal_def emit_def
        sim_node_def)

theorem teleop_once_after_autonomy_witness:
  "action_server_callback sim_ext sim_wps [''gps1''] [idle, active, idle, idle, arrived] sim_node
     = (Ret \<lparr>terminal_state = Succeed,
              result_msg = ''One small step for a rover, one giant leap for roverkind''\<rparr>,
        exec_of (action_server_callback sim_ext sim_wps [''gps1''] [idle, active, idle, idle, arrived] sim_node),
        [])
   \<and> (\<exists>evs. events (exec_of (action_server_callback sim_ext sim_wps [''gps1'']
                                [idle, active, idle, idle, arrived] sim_node))
              = events sim_node @ Trigger Auto # evs @ [Trigger Teleop]
            \<and> Trigger Teleop \<notin> set evs)
   \<and> events (exec_of (action_server_callback sim_ext sim_wps [] [] sim_node))
       = events sim_node @ [Feedback Fatal ''start'' ''No task legs provided'']"
proof -
  let ?x = "action_server_callback sim_ext sim_wps [''gps1''] [idle, active, idle, idle, arrived] sim_node"
  let ?res = "\<lparr>terminal_state = Succeed,
               result_msg = ''One small step for a rover, one giant leap for roverkind''\<rparr>"
  have a: "fst ?x = Ret ?res" by (simp add: model_defs sim_defs)
  have b: "snd (snd ?x) = []" by (simp add: model_defs sim_defs)
  from run_collapse [OF a] b have c: "?x = (Ret ?res, exec_of ?x, [])" by simp
  have d: "fst (action_server_callback sim_ext sim_wps [] [] sim_node)
            = Ret \<lparr>terminal_state = Abort, result_msg = ''Well that was less-than-interstellar of you''\<rparr>"
    by (simp add: action_server_callback_def begin_task_def Let_def)
  from teleop_once_after_autonomy
         [where ext = sim_ext and parsed_wps = sim_wps and request_legs = "[''gps1'']"
            and ts = "[idle, active, idle, idle, arrived]" and s = sim_node and res = ?res
            and s' = "exec_of ?x" and ts' = "[]"] c
  have e: "\<exists>evs. events (exec_of ?x) = events sim_node @ Trigger Auto # evs @ [Trigger Teleop]
            \<and> Trigger Teleop \<notin> set evs" by simp
  from teleop_once_after_autonomy
         [where ext = sim_ext and parsed_wps = sim_wps and request_legs = "[]"
            and ts = "[]" and s = sim_node
            and res = "\<lparr>terminal_state = Abort, result_msg = ''Well that was less-than-interstellar of you''\<rparr>"
            and s' = "exec_of (action_server_callback sim_ext sim_wps [] [] sim_node)"
            and ts' = "snd (snd (action_server_callback sim_ext sim_wps [] [] sim_node))"]
       run_collapse [OF d]
  have f: "events (exec_of (action_server_callback sim_ext sim_wps [] [] sim_node))
       = events sim_node @ [Feedback Fatal ''start'' ''No task legs provided'']"
    by blast
  from c e f show ?thesis by blast
qed

subsection \<open>Errors of a leg\<close>

lemma exec_legs_append:
  "exec_legs ext (xs @ ys) ts s = and_then (exec_legs ext xs ts s) (\<lambda>_ ts s. exec_legs ext ys ts s)"
proof (induction xs arbitrary: ts s)
  case Nil
  show ?case by (simp add: and_then_def)
next
  case (Cons x xs)
  show ?case
    by (cases "exec_leg ext x ts s" rule: prod_cases3; cases "fst (exec_leg ext x ts s)")
       (auto simp: and_then_def Cons.IH)
qed

lemma gps_nav_leg: "gps_nav ext d src u ts s = (r, s', ts') \<Longrightarrow> leg s' = leg s"
  by (drule gps_nav_steps') (simp add: steps_def)

lemma spin_search_leg: "spin_search ext src ts s = (r, s', ts') \<Longrightarrow> leg s' = leg s"
  by (drule spin_search_steps') (simp add: steps_def)

lemma hex_search_leg: "hex_search ext ts s = (r, s', ts') \<Longrightarrow> leg s' = leg s"
  by (drule hex_search_steps) (simp add: steps_def)

lemma target_not_found:
  assumes target: "l \<in> set aruco_legs \<or> l \<in> set obj_legs"
    and wp: "leg_waypoint (wps s) l = Some w"
    and nav: "gps_nav ext w [] False ts (task_info (''Starting '' @ print_string l @ '' leg'') (s\<lparr>leg := l\<rparr>))
                = (Ret None, s2, ts2)"
    and spin: "spin_search ext [] ts2 s2 = (Ret None, s3, ts3)"
    and hex: "hex_search ext ts3 s3 = (Ret None, s4, ts4)"
  shows "exec_leg ext l ts s = (Ret (), task_error (''Could not find the '' @ print_string l) s4, ts4)"
proof -
  have l2: "leg s2 = l" using gps_nav_leg [OF nav] by (simp add: task_info_def emit_def)
  have l3: "leg s3 = l" using spin_search_leg [OF spin] l2 by simp
  have l4: "leg s4 = l" using hex_search_leg [OF hex] l3 by simp
  show ?thesis
    using target wp nav spin hex l2 l3 l4
    by (simp add: exec_leg_def Let_def and_then_def task_info_def emit_def)
qed

text \<open>C1, as amended. Only an exception raised inside a leg (the cancellation seen by a
  polling loop, an unknown path planner) aborts the mission: the loop over the legs ends in
  the state of the raise and runs no later leg. An error that a leg reports without raising
  ends that leg alone, with no arrival signal, and the loop goes on with the next leg: an
  invalid leg type, a leg without waypoint, a target that the navigation, the spin search and
  the hex search did not find.\<close>

theorem leg_errors_abort_only_when_raised:
  "(exec_legs ext before ts s = (Ret (), s1, ts1) \<and> exec_leg ext l ts1 s1 = (Raise e, s2, ts2) \<longrightarrow>
      exec_legs ext (before @ l # later) ts s = (Raise e, s2, ts2))
   \<and> (l \<notin> set gps_legs \<and> l \<notin> set aruco_legs \<and> l \<notin> set obj_legs \<longrightarrow>
        exec_legs ext (l # later) ts s
          = exec_legs ext later ts (task_error (''Invalid leg type provided:'' @ l) (s\<lparr>leg := l\<rparr>)))
   \<and> ((l \<in> set gps_legs \<or> l \<in> set aruco_legs \<or> l \<in> set obj_legs) \<and> leg_waypoint (wps s) l = None \<longrightarrow>
        exec_legs ext (l # later) ts s
          = exec_legs ext later ts (task_error ''No GPS waypoint found for leg''
              (task_info (''Starting '' @ print_string l @ '' leg'') (s\<lparr>leg := l\<rparr>))))
   \<and> ((l \<in> set aruco_legs \<or> l \<in> set obj_legs) \<and> leg_waypoint (wps s) l = Some w
        \<and> gps_nav ext w [] False ts (task_info (''Starting '' @ print_string l @ '' leg'') (s\<lparr>leg := l\<rparr>))
            = (Ret None, s3, ts3)
        \<and> spin_search ext [] ts3 s3 = (Ret None, s4, ts4)
        \<and> hex_search ext ts4 s4 = (Ret None, s5, ts5) \<longrightarrow>
        exec_legs ext (l # later) ts s
          = exec_legs ext later ts5 (task_error (''Could not find the '' @ print_string l) s5))"
proof (intro conjI impI)
  assume "exec_legs ext before ts s = (Ret (), s1, ts1) \<and> exec_leg ext l ts1 s1 = (Raise e, s2, ts2)"
  then show "exec_legs ext (before @ l # later) ts s = (Raise e, s2, ts2)"
    by (simp add: exec_legs_append and_then_def)
next
  assume "l \<notin> set gps_legs \<and> l \<notin> set aruco_legs \<and> l \<notin> set obj_legs"
  then show "exec_legs ext (l # later) ts s
          = exec_legs ext later ts (task_error (''Invalid leg type provided:'' @ l) (s\<lparr>leg := l\<rparr>))"
    by (simp add: exec_leg_def Let_def and_then_def)
next
  assume "(l \<in> set gps_legs \<or> l \<in> set aruco_legs \<or> l \<in> set obj_legs) \<and> leg_waypoint (wps s) l = None"
  then show "exec_legs ext (l # later) ts s
          = exec_legs ext later ts (task_error ''No GPS waypoint found for leg''
              (task_info (''Starting '' @ print_string l @ '' leg'') (s\<lparr>leg := l\<rparr>)))"
    by (simp add: exec_leg_def Let_def and_then_def task_info_def emit_def)
next
  assume a: "(l \<in> set aruco_legs \<or> l \<in> set obj_legs) \<and> leg_waypoint (wps s) l = Some w
        \<and> gps_nav ext w [] False ts (task_info (''Starting '' @ print_string l @ '' leg'') (s\<lparr>leg := l\<rparr>))
            = (Ret None, s3, ts3)
        \<and> spin_search ext [] ts3 s3 = (Ret None, s4, ts4)
        \<and> hex_search ext ts4 s4 = (Ret None, s5, ts5)"
  then have "exec_leg ext l ts s = (Ret (), task_error (''Could not find the '' @ print_string l) s5, ts5)"
    by (intro target_not_found) auto
  then show "exec_legs ext (l # later) ts s
          = exec_legs ext later ts5 (task_error (''Could not find the '' @ print_string l) s5)"
    by (simp add: and_then_def)
qed

text \<open>The claim as stated fails: a mission whose first leg has an invalid type and whose
  second leg has no waypoint reports both errors, goes on to the third leg, signals its
  arrival and succeeds; and so does a mission whose first leg never finds its target.\<close>

theorem later_legs_run_after_leg_error_counterexample:
  "fst (action_server_callback sim_ext sim_wps [''rock'', ''gps2'', ''gps1'']
          [idle, active, idle, idle, arrived] sim_node) = Ret small_step
   \<and> outline (action_server_callback sim_ext sim_wps [''rock'', ''gps2'', ''gps1'']
          [idle, active, idle, idle, arrived] sim_node)
       = [Trigger Auto,
          Feedback Error ''rock'' ''Invalid leg type provided:rock'',
          Feedback Error ''gps2'' ''No GPS waypoint found for leg'',
          Enter_gps_nav gps1_wp [] False,
          SendGoal (FollowGPSWaypoints [gps1_wp]),
          Trigger Arrival, Trigger Auto, Trigger Teleop]
   \<and> fst (action_server_callback sim_ext sim_wps [''aruco1'', ''gps1'']
          ([idle, active] @ fruitless @ uneventful) sim_node) = Ret small_step
   \<and> highlights (action_server_callback sim_ext sim_wps [''aruco1'', ''gps1'']
          ([idle, active] @ fruitless @ uneventful) sim_node)
       = [Trigger Auto,
          Feedback Error ''aruco1'' ''Could not find the aruco tag'',
          Trigger Arrival, Trigger Auto, Trigger Teleop]"
  by (simp add: model_defs sim_defs)

theorem leg_errors_abort_only_when_raised_witness:
  "exec_legs sim_ext [] [idle, idle, cancelling] (sim_node\<lparr>wps := sim_wps\<rparr>)
      = (Ret (), sim_node\<lparr>wps := sim_wps\<rparr>, [idle, idle, cancelling])
   \<and> fst (exec_leg sim_ext ''gps1'' [idle, idle, cancelling] (sim_node\<lparr>wps := sim_wps\<rparr>)) = Raise cancel_text
   \<and> exec_legs sim_ext ([] @ ''gps1'' # [''aruco1'']) [idle, idle, cancelling] (sim_node\<lparr>wps := sim_wps\<rparr>)
       = exec_leg sim_ext ''gps1'' [idle, idle, cancelling] (sim_node\<lparr>wps := sim_wps\<rparr>)
   \<and> exec_legs sim_ext (''rock'' # [''gps1'']) [idle, idle, arrived] (sim_node\<lparr>wps := sim_wps\<rparr>)
       = exec_legs sim_ext [''gps1''] [idle, idle, arrived]
           (task_error (''Invalid leg type provided:'' @ ''rock'') (sim_node\<lparr>wps := sim_wps, leg := ''rock''\<rparr>))
   \<and> exec_legs sim_ext (''gps2'' # [''gps1'']) [idle, idle, arrived] (sim_node\<lparr>wps := sim_wps\<rparr>)
       = exec_legs sim_ext [''gps1''] [idle, idle, arrived]
           (task_error ''No GPS waypoint found for leg''
              (task_info (''Starting '' @ print_string ''gps2'' @ '' leg'')
                 (sim_node\<lparr>wps := sim_wps, leg := ''gps2''\<rparr>)))
   \<and> fst (hex_search sim_ext (drop 6 fruitless)
            (exec_of (spin_search sim_ext [] (drop 3 fruitless)
               (exec_of (gps_nav sim_ext aruco1_wp [] False fruitless
                  (task_info (''Starting '' @ print_string ''aruco1'' @ '' leg'') searching_node)))))) = Ret None
   \<and> (\<exists>s5. exec_legs sim_ext (''aruco1'' # [''gps1'']) fruitless (sim_node\<lparr>wps := sim_wps\<rparr>)
              = exec_legs sim_ext [''gps1''] [] (task_error (''Could not find the '' @ print_string ''aruco1'') s5))"
proof -
  let ?s = "sim_node\<lparr>wps := sim_wps\<rparr>"
  let ?ts = "[idle, idle, cancelling]"
  let ?x = "exec_leg sim_ext ''gps1'' ?ts ?s"
  note inst = leg_errors_abort_only_when_raised [where ext = sim_ext and s = ?s]
  have a: "exec_legs sim_ext [] ?ts ?s = (Ret (), ?s, ?ts)" by simp
  have b: "fst ?x = Raise cancel_text" by (simp add: model_defs sim_defs)
  from inst [where before = "[]" and ts = ?ts and ?s1.0 = ?s and ?ts1.0 = ?ts and l = "''gps1''"
              and e = cancel_text and ?s2.0 = "exec_of ?x" and ?ts2.0 = "snd (snd ?x)"
              and later = "[''aruco1'']"]
       a run_collapse [OF b]
  have c: "exec_legs sim_ext ([] @ ''gps1'' # [''aruco1'']) ?ts ?s = ?x" by simp
  have "''rock'' \<notin> set gps_legs \<and> ''rock'' \<notin> set aruco_legs \<and> ''rock'' \<notin> set obj_legs"
    by (simp add: gps_legs_def aruco_legs_def obj_legs_def)
  with inst [where l = "''rock''" and later = "[''gps1'']" and ts = "[idle, idle, arrived]"]
  have d: "exec_legs sim_ext (''rock'' # [''gps1'']) [idle, idle, arrived] ?s
       = exec_legs sim_ext [''gps1''] [idle, idle, arrived]
           (task_error (''Invalid leg type provided:'' @ ''rock'') (sim_node\<lparr>wps := sim_wps, leg := ''rock''\<rparr>))"
    by simp
  have "(''gps2'' \<in> set gps_legs \<or> ''gps2'' \<in> set aruco_legs \<or> ''gps2'' \<in> set obj_legs)
        \<and> leg_waypoint (wps ?s) ''gps2'' = None"
    by (simp add: gps_legs_def leg_waypoint_def sim_wps_def)
  with inst [where l = "''gps2''" and later = "[''gps1'']" and ts = "[idle, idle, arrived]"]
  have e: "exec_legs sim_ext (''gps2'' # [''gps1'']) [idle, idle, arrived] ?s
       = exec_legs sim_ext [''gps1''] [idle, idle, arrived]
           (task_error ''No GPS waypoint found for leg''
              (task_info (''Starting '' @ print_string ''gps2'' @ '' leg'')
                 (sim_node\<lparr>wps := sim_wps, leg := ''gps2''\<rparr>)))"
    by simp
  let ?s1 = "task_info (''Starting '' @ print_string ''aruco1'' @ '' leg'') searching_node"
  let ?n = "gps_nav sim_ext aruco1_wp [] False fruitless ?s1"
  let ?sp = "spin_search sim_ext [] (drop 3 fruitless) (exec_of ?n)"
  let ?h = "hex_search sim_ext (drop 6 fruitless) (exec_of ?sp)"
  have n: "fst ?n = Ret None" "snd (snd ?n) = drop 3 fruitless"
    by (simp_all add: model_defs sim_defs)
  have sp: "fst ?sp = Ret None" "snd (snd ?sp) = drop 6 fruitless"
    by (simp_all add: model_defs sim_defs)
  have h: "fst ?h = Ret None" "snd (snd ?h) = []"
    by (simp_all add: model_defs sim_defs)
  have sn: "?s\<lparr>leg := ''aruco1''\<rparr> = searching_node"
    by (simp add: searching_node_def)
  have target: "(''aruco1'' \<in> set aruco_legs \<or> ''aruco1'' \<in> set obj_legs)
                \<and> leg_waypoint (wps ?s) ''aruco1'' = Some aruco1_wp"
    by (simp add: model_defs sim_defs)
  from run_collapse [OF n(1)] n(2) have n': "?n = (Ret None, exec_of ?n, drop 3 fruitless)" by simp
  from run_collapse [OF sp(1)] sp(2) have sp': "?sp = (Ret None, exec_of ?sp, drop 6 fruitless)" by simp
  from run_collapse [OF h(1)] h(2) have h': "?h = (Ret None, exec_of ?h, [])" by simp
  from inst [where l = "''aruco1''" and later = "[''gps1'']" and ts = fruitless and w = aruco1_wp
               and ?s3.0 = "exec_of ?n" and ?ts3.0 = "drop 3 fruitless"
               and ?s4.0 = "exec_of ?sp" and ?ts4.0 = "drop 6 fruitless"
               and ?s5.0 = "exec_of ?h" and ?ts5.0 = "[]"]
       target n' sp' h' sn
  have "exec_legs sim_ext (''aruco1'' # [''gps1'']) fruitless ?s
          = exec_legs sim_ext [''gps1''] [] (task_error (''Could not find the '' @ print_string ''aruco1'') (exec_of ?h))"
    by simp
  then have f: "\<exists>s5. exec_legs sim_ext (''aruco1'' # [''gps1'']) fruitless ?s
              = exec_legs sim_ext [''gps1''] [] (task_error (''Could not find the '' @ print_string ''aruco1'') s5)"
    by blast
  from a b c d e h(1) f show ?thesis by blast
qed

subsection \<open>The result of a cancelled task\<close>

text \<open>C3, as amended. The exception raised when a polling loop sees the cancel request is
  handled like every other exception of the task: whatever its text, the served goal is
  aborted, the result message is the one of an internal failure, and the exception's text
  goes out as a fatal feedback before the teleop trigger. No run marks the goal canceled.\<close>

theorem cancellation_reported_as_abort:
  "(request_legs \<noteq> []
      \<and> exec_autonomy_task ext ts (trigger Auto (begin_task parsed_wps request_legs s)) = (Raise e, s1, ts1) \<longrightarrow>
      action_server_callback ext parsed_wps request_legs ts s
        = (Ret \<lparr>terminal_state = Abort, result_msg = ''It was the aliens, I'm telling you''\<rparr>,
           trigger Teleop (task_fatal e s1), ts1))
   \<and> (action_server_callback ext parsed_wps request_legs ts s = (Ret res, s', ts') \<longrightarrow>
        terminal_state res \<noteq> Canceled)"
proof (intro conjI impI)
  assume "request_legs \<noteq> []
      \<and> exec_autonomy_task ext ts (trigger Auto (begin_task parsed_wps request_legs s)) = (Raise e, s1, ts1)"
  then show "action_server_callback ext parsed_wps request_legs ts s
        = (Ret \<lparr>terminal_state = Abort, result_msg = ''It was the aliens, I'm telling you''\<rparr>,
           trigger Teleop (task_fatal e s1), ts1)"
    by (simp add: action_server_callback_def Let_def begin_task_def)
next
  assume "action_server_callback ext parsed_wps request_legs ts s = (Ret res, s', ts')"
  then show "terminal_state res \<noteq> Canceled"
    by (cases "exec_autonomy_task ext ts (trigger Auto (begin_task parsed_wps request_legs s))"
          rule: prod_cases3;
        cases "fst (exec_autonomy_task ext ts (trigger Auto (begin_task parsed_wps request_legs s)))")
       (auto simp: action_server_callback_def Let_def split: if_splits)
qed

text \<open>The claim as stated fails: a task cancelled while the spin search of \<open>aruco1\<close> is
  active ends with the goal aborted and the result of an internal failure, the same result
  as a task refused for an unknown order planner.\<close>

theorem cancelled_task_is_aborted_counterexample:
  "fst (action_server_callback sim_ext sim_wps [''aruco1'']
          [idle, active, idle, idle, arrived, idle, idle, cancelling] sim_node) = Ret aliens
   \<and> terminal_state aliens = Abort
   \<and> fst (action_server_callback sim_ext sim_wps [''aruco1''] []
            (sim_node\<lparr>order_planner := ''bestOrderPlanner''\<rparr>)) = Ret aliens
   \<and> outline (action_server_callback sim_ext sim_wps [''aruco1'']
          [idle, active, idle, idle, arrived, idle, idle, cancelling] sim_node)
       = [Trigger Auto,
          Enter_gps_nav aruco1_wp [] False,
          SendGoal (FollowGPSWaypoints [aruco1_wp]),
          Enter_spin_search [],
          SendGoal (Spin (314 / 100) 10),
          CancelGoal,
          Feedback Fatal ''aruco1'' cancel_text,
          Trigger Teleop]"
  by (simp add: model_defs sim_defs)

theorem cancellation_reported_as_abort_witness:
  "[''aruco1''] \<noteq> []
   \<and> fst (exec_autonomy_task sim_ext [idle, active, idle, idle, arrived, idle, idle, cancelling]
            (trigger Auto (begin_task sim_wps [''aruco1''] sim_node))) = Raise cancel_text
   \<and> fst (action_server_callback sim_ext sim_wps [''aruco1'']
            [idle, active, idle, idle, arrived, idle, idle, cancelling] sim_node)
       = Ret \<lparr>terminal_state = Abort, result_msg = ''It was the aliens, I'm telling you''\<rparr>
   \<and> terminal_state small_step \<noteq> Canceled"
proof -
  let ?ts = "[idle, active, idle, idle, arrived, idle, idle, cancelling]"
  let ?x = "exec_autonomy_task sim_ext ?ts (trigger Auto (begin_task sim_wps [''aruco1''] sim_node))"
  let ?y = "action_server_callback sim_ext sim_wps [''gps1''] [idle, active, idle, idle, arrived] sim_node"
  note inst = cancellation_reported_as_abort [where ext = sim_ext and parsed_wps = sim_wps and s = sim_node]
  have a: "fst ?x = Raise cancel_text"
    by (simp add: model_defs sim_defs)
  from inst [where request_legs = "[''aruco1'']" and ts = ?ts and e = cancel_text
               and ?s1.0 = "exec_of ?x" and ?ts1.0 = "snd (snd ?x)"]
       run_collapse [OF a]
  have b: "fst (action_server_callback sim_ext sim_wps [''aruco1''] ?ts sim_node)
       = Ret \<lparr>terminal_state = Abort, result_msg = ''It was the aliens, I'm telling you''\<rparr>"
    by simp
  have c: "fst ?y = Ret small_step" by (simp add: model_defs sim_defs)
  from inst [where request_legs = "[''gps1'']" and ts = "[idle, active, idle, idle, arrived]"
               and res = small_step and s' = "exec_of ?y" and ts' = "snd (snd ?y)"]
       run_collapse [OF c]
  have d: "terminal_state small_step \<noteq> Canceled" by blast
  from a b d show ?thesis by simp
qed

subsection \<open>The end-to-end scenario\<close>

lemma scenario_run:
  "fst (action_server_callback sim_ext sim_wps [''gps1'', ''aruco1''] scenario sim_node) = Ret small_step"
  "snd (snd (action_server_callback sim_ext sim_wps [''gps1'', ''aruco1''] scenario sim_node)) = []"
  "outline (action_server_callback sim_ext sim_wps [''gps1'', ''aruco1''] scenario sim_node)
     = [Trigger Auto,
        Enter_gps_nav gps1_wp [] False,
        SendGoal (FollowGPSWaypoints [gps1_wp]),
        Trigger Arrival, Trigger Auto,
        Enter_gps_nav aruco1_wp [] False,
        SendGoal (FollowGPSWaypoints [aruco1_wp]),
        Enter_spin_search [],
        SendGoal (Spin (314 / 100) 10),
        CancelGoal,
        Enter_gps_nav marker_pose1 '' (aruco tag)'' True,
        SendGoal (FollowGPSWaypoints [marker_pose1]),
        Trigger Arrival, Trigger Auto,
        Trigger Teleop]"
  by (simp_all add: model_defs sim_defs update_loop.simps)

lemma count_trigger_outline:
  "count_trigger m x = length (filter (\<lambda>e. e = Trigger m) (outline x))"
  by (simp add: count_trigger_def outline_def cong: filter_cong conj_cong)
     (rule arg_cong [where f = length], rule filter_cong, auto)

text \<open>C5, as amended. In the two-leg scenario the mission succeeds, every tick of the
  script is consumed, and the executor triggers the arrival state twice (once per leg), the
  autonomy state three times (once before the first leg and once after the dwell of each leg)
  and the teleop state once, as its last action.\<close>

theorem scenario_mode_switches:
  "fst (action_server_callback sim_ext sim_wps [''gps1'', ''aruco1''] scenario sim_node) = Ret small_step
   \<and> terminal_state small_step = Succeed
   \<and> count_trigger Arrival (action_server_callback sim_ext sim_wps [''gps1'', ''aruco1''] scenario sim_node) = 2
   \<and> count_trigger Auto (action_server_callback sim_ext sim_wps [''gps1'', ''aruco1''] scenario sim_node) = 3
   \<and> count_trigger Teleop (action_server_callback sim_ext sim_wps [''gps1'', ''aruco1''] scenario sim_node) = 1
   \<and> last (outline (action_server_callback sim_ext sim_wps [''gps1'', ''aruco1''] scenario sim_node))
       = Trigger Teleop"
  by (simp add: scenario_run count_trigger_outline small_step_def)

text \<open>The claim as stated fails: the autonomy state is not triggered exactly twice.\<close>

theorem scenario_autonomy_switches_counterexample:
  "count_trigger Auto (action_server_callback sim_ext sim_wps [''gps1'', ''aruco1''] scenario sim_node) \<noteq> 2"
  by (simp add: scenario_run count_trigger_outline)

subsection \<open>Unwinding from a cancel request\<close>

lemma poll_Raised:
  "poll body ts s = (Raise e, s', ts') \<Longrightarrow> \<exists>t s0. body t s0 = Raised e s'"
proof (induction ts arbitrary: s)
  case Nil
  then show ?case by simp
next
  case (Cons t ts)
  then show ?case by (cases "body t s") auto
qed

lemma cancelTask_events:
  "events (cancelTask s) = events s @ (if result_future s = None then [] else [CancelGoal])"
  by (simp add: cancelTask_def emit_def)

lemma cancelTask_future: "result_future (cancelTask s) = result_future s"
  by (simp add: cancelTask_def emit_def)

lemma cancel_tail_cancelTask:
  "events s = pre @ [c] \<Longrightarrow> c = Sleep 100 \<or> (\<exists>l. c = Feedback Warn l ''Waiting on a GPS fix...'')
   \<Longrightarrow> cancel_tail (cancelTask s)"
  unfolding cancel_tail_def cancelTask_events cancelTask_future by auto

lemma gps_nav_pass_Raised:
  "gps_nav_pass ext d src u t s = Raised cancel_text s' \<Longrightarrow> cancel_tail s'"
  by (auto simp: gps_nav_pass_def Let_def cancel_text_def emit_def
           split: prod.splits bool.splits if_splits option.splits
           intro!: cancel_tail_cancelTask)

lemma spin_search_pass_Raised:
  "spin_search_pass ext t s = Raised cancel_text s' \<Longrightarrow> cancel_tail s'"
  by (auto simp: spin_search_pass_def Let_def cancel_text_def emit_def
           split: prod.splits bool.splits if_splits option.splits
           intro!: cancel_tail_cancelTask)

lemma cc_triple:
  "cancels_cleanly (Ret v, s, ts)"
  "cancels_cleanly (Pending, s, ts)"
  "e \<noteq> cancel_text \<Longrightarrow> cancels_cleanly (Raise e, s, ts)"
  by (simp_all add: cancels_cleanly_def exec_of_def)

lemma cc_cancelled: "cancel_tail s \<Longrightarrow> cancels_cleanly (Raise e, s, ts)"
  by (simp add: cancels_cleanly_def exec_of_def)

lemma cc_and_then:
  assumes "cancels_cleanly r" and "\<And>v ts s. cancels_cleanly (k v ts s)"
  shows "cancels_cleanly (and_then r k)"
proof (cases r)
  case (fields out s ts)
  with assms show ?thesis
    by (cases out) (auto simp: and_then_def cancels_cleanly_def exec_of_def)
qed

lemma cc_poll:
  assumes "\<And>t s s'. body t s = Raised cancel_text s' \<Longrightarrow> cancel_tail s'"
  shows "cancels_cleanly (poll body ts s)"
proof (cases "poll body ts s")
  case (fields out s' ts')
  show ?thesis
  proof (cases "out = Raise cancel_text")
    case True
    with fields obtain t s0 where "body t s0 = Raised cancel_text s'"
      by (auto dest: poll_Raised)
    then have "cancel_tail s'" by (rule assms)
    with fields show ?thesis by (simp add: cancels_cleanly_def exec_of_def)
  next
    case False
    with fields show ?thesis by (simp add: cancels_cleanly_def)
  qed
qed

lemma cc_wait_for_server: "cancels_cleanly (poll (wait_for_server ext) ts s)"
  by (rule cc_poll) (simp add: wait_for_server_def Let_def split: if_splits)

lemma cc_get_state: "cancels_cleanly (poll (get_state ext) ts s)"
  by (rule cc_poll) (simp add: get_state_def Let_def split: if_splits)

lemma cc_send_goal: "cancels_cleanly (send_goal ext g ts s)"
  unfolding send_goal_def
  by (intro cc_and_then cc_wait_for_server) (simp add: cc_triple Let_def split: list.splits)

lemma cc_poll_gps_nav: "cancels_cleanly (poll (gps_nav_pass ext d src u) ts s)"
  by (rule cc_poll) (rule gps_nav_pass_Raised)

lemma cc_poll_spin_search: "cancels_cleanly (poll (spin_search_pass ext) ts s)"
  by (rule cc_poll) (rule spin_search_pass_Raised)

lemma invalid_planner_text:
  "c \<noteq> CHR ''T'' \<Longrightarrow> cancels_cleanly (Raise (c # x), s, ts)"
  by (simp add: cancels_cleanly_def cancel_text_def)

lemma cc_gps_nav: "cancels_cleanly (gps_nav ext d src u ts s)"
  unfolding gps_nav_def Let_def followGpsWaypoints_def
  by (auto split: option.splits simp: cc_triple invalid_planner_text
        intro!: cc_and_then cc_send_goal cc_poll_gps_nav)

lemma cc_spin_search: "cancels_cleanly (spin_search ext src ts s)"
  unfolding spin_search_def Let_def spin_def
  by (auto split: option.splits simp: cc_triple
        intro!: cc_and_then cc_send_goal cc_poll_spin_search)

lemma cc_hex_visit: "cancels_cleanly (hex_visit ext base_wp i coords ts s)"
proof (induction coords arbitrary: i ts s)
  case Nil
  show ?case by (simp add: cc_triple)
next
  case (Cons coord coords)
  show ?case
    unfolding hex_visit.simps
    by (auto split: option.splits simp: cc_triple intro!: cc_and_then cc_gps_nav cc_spin_search Cons.IH)
qed

lemma cc_hex_search: "cancels_cleanly (hex_search ext ts s)"
  unfolding hex_search_def Let_def
  by (auto split: option.splits simp: cc_triple invalid_planner_text
        intro!: cc_and_then cc_hex_visit)

lemma cc_update_loop: "cancels_cleanly (update_loop ext src loc ts s)"
proof (induction ext src loc ts s rule: update_loop.induct)
  case (1 ext src loc ts s)
  obtain v s1 ts1 where g: "gps_nav ext loc src True ts s = (v, s1, ts1)"
    by (cases "gps_nav ext loc src True ts s")
  have cc: "cancels_cleanly (gps_nav ext loc src True ts s)" by (rule cc_gps_nav)
  show ?case
  proof (cases v)
    case (Ret found)
    show ?thesis
    proof (cases found)
      case None
      with Ret g show ?thesis by (simp add: update_loop.simps [of ext src loc ts s] cc_triple)
    next
      case (Some p)
      with Ret g have "cancels_cleanly (update_loop ext src p ts1 s1)" by (intro "1.IH") auto
      with Some Ret g show ?thesis by (simp add: update_loop.simps [of ext src loc ts s])
    qed
  next
    case (Raise e)
    with g cc show ?thesis
      by (simp add: update_loop.simps [of ext src loc ts s] cancels_cleanly_def exec_of_def)
  next
    case Pending
    with g show ?thesis by (simp add: update_loop.simps [of ext src loc ts s] cc_triple)
  qed
qed

lemma cc_exec_leg: "cancels_cleanly (exec_leg ext l ts s)"
  unfolding exec_leg_def Let_def signal_arrival_def
  by (auto split: option.splits simp: cc_triple
        intro!: cc_and_then cc_gps_nav cc_spin_search cc_hex_search cc_update_loop)

lemma cc_exec_legs: "cancels_cleanly (exec_legs ext ls ts s)"
proof (induction ls arbitrary: ts s)
  case Nil
  show ?case by (simp add: cc_triple)
next
  case (Cons l ls)
  show ?case unfolding exec_legs.simps by (intro cc_and_then cc_exec_leg Cons.IH)
qed

lemma cc_wait_for_fix: "cancels_cleanly (wait_for_fix ext ts s)"
proof (induction ts arbitrary: s)
  case Nil
  show ?case by (simp add: cc_triple)
next
  case (Cons t ts)
  have "cancel_tail (cancelTask (task_warn ''Waiting on a GPS fix...'' (emit (Sleep 1000) (deliver ext t s))))"
    by (rule cancel_tail_cancelTask [where pre = "events (deliver ext t s) @ [Sleep 1000]"])
       (auto simp: task_warn_def emit_def)
  then show ?case by (simp add: Let_def cc_triple cc_cancelled Cons.IH)
qed

lemma cc_exec_autonomy_task: "cancels_cleanly (exec_autonomy_task ext ts s)"
  unfolding exec_autonomy_task_def Let_def waitUntilNav2Active_def waitForNodeToActivate_def
  by (auto split: option.splits simp: cc_triple invalid_planner_text
        intro!: cc_and_then cc_wait_for_fix cc_wait_for_server cc_get_state cc_exec_legs)


text \<open>C4, as amended. In each of the three polling loops a pass that finds its condition
  still pending (no fix yet, motion task not complete) looks at the cancel request after its
  sleep (one second in the wait for a fix, 100 ms in the polls of a motion task): a request
  that has arrived is seen in that pass, \<^verbatim>\<open>cancelTask\<close> runs once, which sends one
  cancellation when a goal result is outstanding and none otherwise, and the loop raises.
  From there the task unwinds without any further goal: the events of the callback end with
  that pass, the cancellation if any, the fatal feedback and the teleop trigger. A pass that
  finds the motion task complete leaves the loop without looking at the request.\<close>

theorem cancel_request_seen_in_pending_pass:
  "(filtered_gps s = None \<and> is_cancel_requested (deliver ext t s) \<longrightarrow>
      wait_for_fix ext (t # ts) s
        = (Raise cancel_text,
           cancelTask (task_warn ''Waiting on a GPS fix...'' (emit (Sleep 1000) (deliver ext t s))), ts))
   \<and> (isTaskComplete t (deliver ext t s) = (False, s1) \<and> is_cancel_requested s1 \<longrightarrow>
        poll (gps_nav_pass ext dest_wp src_string updating) (t # ts) s
          = (Raise cancel_text, cancelTask (emit (Sleep 100) s1), ts)
        \<and> poll (spin_search_pass ext) (t # ts) s
          = (Raise cancel_text, cancelTask (emit (Sleep 100) s1), ts))
   \<and> events (cancelTask s) = events s @ (if result_future s = None then [] else [CancelGoal])
   \<and> (request_legs \<noteq> []
        \<and> exec_autonomy_task ext ts (trigger Auto (begin_task parsed_wps request_legs s))
            = (Raise cancel_text, s2, ts2) \<longrightarrow>
        (\<exists>pre c. events (exec_of (action_server_callback ext parsed_wps request_legs ts s))
                   = pre @ c # (if result_future s2 = None then [] else [CancelGoal])
                       @ [Feedback Fatal (leg s2) cancel_text, Trigger Teleop]
                 \<and> (c = Sleep 100 \<or> (\<exists>l. c = Feedback Warn l ''Waiting on a GPS fix...''))))"
proof (intro conjI impI)
  assume "filtered_gps s = None \<and> is_cancel_requested (deliver ext t s)"
  then show "wait_for_fix ext (t # ts) s
        = (Raise cancel_text,
           cancelTask (task_warn ''Waiting on a GPS fix...'' (emit (Sleep 1000) (deliver ext t s))), ts)"
    by (simp add: Let_def task_warn_def emit_def)
next
  assume a: "isTaskComplete t (deliver ext t s) = (False, s1) \<and> is_cancel_requested s1"
  then show "poll (gps_nav_pass ext dest_wp src_string updating) (t # ts) s
          = (Raise cancel_text, cancelTask (emit (Sleep 100) s1), ts)"
    by (simp add: gps_nav_pass_def Let_def emit_def)
  from a show "poll (spin_search_pass ext) (t # ts) s
          = (Raise cancel_text, cancelTask (emit (Sleep 100) s1), ts)"
    by (simp add: spin_search_pass_def Let_def emit_def)
next
  show "events (cancelTask s) = events s @ (if result_future s = None then [] else [CancelGoal])"
    by (rule cancelTask_events)
next
  let ?s0 = "trigger Auto (begin_task parsed_wps request_legs s)"
  assume a: "request_legs \<noteq> [] \<and> exec_autonomy_task ext ts ?s0 = (Raise cancel_text, s2, ts2)"
  have "cancels_cleanly (exec_autonomy_task ext ts ?s0)" by (rule cc_exec_autonomy_task)
  with a have "cancel_tail s2" by (simp add: cancels_cleanly_def exec_of_def)
  then obtain pre c where tail:
    "events s2 = pre @ c # (if result_future s2 = None then [] else [CancelGoal])"
    "c = Sleep 100 \<or> (\<exists>l. c = Feedback Warn l ''Waiting on a GPS fix...'')"
    by (auto simp: cancel_tail_def)
  from a have "exec_of (action_server_callback ext parsed_wps request_legs ts s)
                 = trigger Teleop (task_fatal cancel_text s2)"
    by (simp add: action_server_callback_def Let_def begin_task_def exec_of_def)
  then have "events (exec_of (action_server_callback ext parsed_wps request_legs ts s))
                   = pre @ c # (if result_future s2 = None then [] else [CancelGoal])
                       @ [Feedback Fatal (leg s2) cancel_text, Trigger Teleop]"
    using tail(1) by (simp add: trigger_def task_fatal_def emit_def)
  with tail(2) show "\<exists>pre c. events (exec_of (action_server_callback ext parsed_wps request_legs ts s))
                   = pre @ c # (if result_future s2 = None then [] else [CancelGoal])
                       @ [Feedback Fatal (leg s2) cancel_text, Trigger Teleop]
                 \<and> (c = Sleep 100 \<or> (\<exists>l. c = Feedback Warn l ''Waiting on a GPS fix...''))"
    by blast
qed

text \<open>The claim as stated fails when the request arrives in the tick in which the motion
  task completes. The navigation to \<open>aruco1\<close> then returns with the request pending and
  unseen, and the spin search sends a further goal before its first pass sees the request;
  and a mission whose last navigation completes in that tick succeeds with the request
  pending and no cancellation sent.\<close>

theorem cancel_request_unseen_at_completion_counterexample:
  "fst (gps_nav sim_ext aruco1_wp [] False [idle, idle, arrived_cancelling]
          (sim_node\<lparr>leg := ''aruco1''\<rparr>)) = Ret None
   \<and> is_cancel_requested (exec_of (gps_nav sim_ext aruco1_wp [] False [idle, idle, arrived_cancelling]
          (sim_node\<lparr>leg := ''aruco1''\<rparr>)))
   \<and> outline (action_server_callback sim_ext sim_wps [''aruco1'']
          [idle, active, idle, idle, arrived_cancelling, idle, idle, idle] sim_node)
       = [Trigger Auto,
          Enter_gps_nav aruco1_wp [] False,
          SendGoal (FollowGPSWaypoints [aruco1_wp]),
          Enter_spin_search [],
          SendGoal (Spin (314 / 100) 10),
          CancelGoal,
          Feedback Fatal ''aruco1'' cancel_text,
          Trigger Teleop]
   \<and> fst (action_server_callback sim_ext sim_wps [''gps1'']
          [idle, active, idle, idle, arrived_cancelling] sim_node) = Ret small_step
   \<and> is_cancel_requested (exec_of (action_server_callback sim_ext sim_wps [''gps1'']
          [idle, active, idle, idle, arrived_cancelling] sim_node))
   \<and> CancelGoal \<notin> set (events (exec_of (action_server_callback sim_ext sim_wps [''gps1'']
          [idle, active, idle, idle, arrived_cancelling] sim_node)))"
  by (simp add: model_defs sim_defs)

theorem cancel_request_seen_in_pending_pass_witness:
  "filtered_gps (sim_node\<lparr>filtered_gps := None\<rparr>) = None
   \<and> is_cancel_requested (deliver sim_ext cancelling (sim_node\<lparr>filtered_gps := None\<rparr>))
   \<and> fst (wait_for_fix sim_ext [cancelling] (sim_node\<lparr>filtered_gps := None\<rparr>)) = Raise cancel_text
   \<and> isTaskComplete cancelling (deliver sim_ext cancelling (sim_node\<lparr>result_future := Some Waiting\<rparr>))
       = (False, deliver sim_ext cancelling (sim_node\<lparr>result_future := Some Waiting\<rparr>))
   \<and> is_cancel_requested (deliver sim_ext cancelling (sim_node\<lparr>result_future := Some Waiting\<rparr>))
   \<and> fst (poll (gps_nav_pass sim_ext gps1_wp [] False) [cancelling]
            (sim_node\<lparr>result_future := Some Waiting\<rparr>)) = Raise cancel_text
   \<and> fst (poll (spin_search_pass sim_ext) [cancelling]
            (sim_node\<lparr>result_future := Some Waiting\<rparr>)) = Raise cancel_text
   \<and> fst (exec_autonomy_task sim_ext [idle, active, idle, idle, arrived, idle, idle, cancelling]
            (trigger Auto (begin_task sim_wps [''aruco1''] sim_node))) = Raise cancel_text
   \<and> (\<exists>pre c. events (exec_of (action_server_callback sim_ext sim_wps [''aruco1'']
                   [idle, active, idle, idle, arrived, idle, idle, cancelling] sim_node))
               = pre @ c # [CancelGoal] @ [Feedback Fatal ''aruco1'' cancel_text, Trigger Teleop]
             \<and> (c = Sleep 100 \<or> (\<exists>l. c = Feedback Warn l ''Waiting on a GPS fix...'')))"
proof -
  let ?g = "sim_node\<lparr>filtered_gps := None\<rparr>"
  let ?w = "sim_node\<lparr>result_future := Some Waiting\<rparr>"
  let ?ts = "[idle, active, idle, idle, arrived, idle, idle, cancelling]"
  let ?x = "exec_autonomy_task sim_ext ?ts (trigger Auto (begin_task sim_wps [''aruco1''] sim_node))"
  note inst = cancel_request_seen_in_pending_pass [where ext = sim_ext and t = cancelling and ts = "[]"]
  have a: "filtered_gps ?g = None \<and> is_cancel_requested (deliver sim_ext cancelling ?g)"
    by (simp add: model_defs sim_defs)
  from inst [where s = ?g]
  have "filtered_gps ?g = None \<and> is_cancel_requested (deliver sim_ext cancelling ?g) \<longrightarrow>
      wait_for_fix sim_ext [cancelling] ?g
        = (Raise cancel_text,
           cancelTask (task_warn ''Waiting on a GPS fix...'' (emit (Sleep 1000) (deliver sim_ext cancelling ?g))), [])"
    by (rule conjunct1)
  with a have b: "fst (wait_for_fix sim_ext [cancelling] ?g) = Raise cancel_text" by simp
  have c: "isTaskComplete cancelling (deliver sim_ext cancelling ?w) = (False, deliver sim_ext cancelling ?w)
           \<and> is_cancel_requested (deliver sim_ext cancelling ?w)"
    by (simp add: model_defs sim_defs)
  from inst [where s = ?w and ?s1.0 = "deliver sim_ext cancelling ?w" and dest_wp = gps1_wp
               and src_string = "[]" and updating = False]
  have "isTaskComplete cancelling (deliver sim_ext cancelling ?w) = (False, deliver sim_ext cancelling ?w)
        \<and> is_cancel_requested (deliver sim_ext cancelling ?w) \<longrightarrow>
        poll (gps_nav_pass sim_ext gps1_wp [] False) [cancelling] ?w
          = (Raise cancel_text, cancelTask (emit (Sleep 100) (deliver sim_ext cancelling ?w)), [])
        \<and> poll (spin_search_pass sim_ext) [cancelling] ?w
          = (Raise cancel_text, cancelTask (emit (Sleep 100) (deliver sim_ext cancelling ?w)), [])"
    by (rule conjunct1 [OF conjunct2])
  with c have d: "fst (poll (gps_nav_pass sim_ext gps1_wp [] False) [cancelling] ?w) = Raise cancel_text
           \<and> fst (poll (spin_search_pass sim_ext) [cancelling] ?w) = Raise cancel_text"
    by simp
  have e: "fst ?x = Raise cancel_text" by (simp add: model_defs sim_defs)
  have f: "result_future (exec_of ?x) \<noteq> None" "leg (exec_of ?x) = ''aruco1''"
    by (simp_all add: model_defs sim_defs)
  have ne: "[''aruco1''] \<noteq> []" by simp
  from cancel_request_seen_in_pending_pass
         [where ext = sim_ext and request_legs = "[''aruco1'']" and parsed_wps = sim_wps
            and ts = ?ts and s = sim_node and ?s2.0 = "exec_of ?x" and ?ts2.0 = "snd (snd ?x)"]
  have "[''aruco1''] \<noteq> [] \<and> ?x = (Raise cancel_text, exec_of ?x, snd (snd ?x)) \<longrightarrow>
        (\<exists>pre c. events (exec_of (action_server_callback sim_ext sim_wps [''aruco1''] ?ts sim_node))
                   = pre @ c # (if result_future (exec_of ?x) = None then [] else [CancelGoal])
                       @ [Feedback Fatal (leg (exec_of ?x)) cancel_text, Trigger Teleop]
                 \<and> (c = Sleep 100 \<or> (\<exists>l. c = Feedback Warn l ''Waiting on a GPS fix...'')))"
    by (rule conjunct2 [OF conjunct2 [OF conjunct2]])
  with ne run_collapse [OF e]
  have "\<exists>pre c. events (exec_of (action_server_callback sim_ext sim_wps [''aruco1''] ?ts sim_node))
                   = pre @ c # (if result_future (exec_of ?x) = None then [] else [CancelGoal])
                       @ [Feedback Fatal (leg (exec_of ?x)) cancel_text, Trigger Teleop]
                 \<and> (c = Sleep 100 \<or> (\<exists>l. c = Feedback Warn l ''Waiting on a GPS fix...''))"
    by blast
  with f have h: "\<exists>pre c. events (exec_of (action_server_callback sim_ext sim_wps [''aruco1''] ?ts sim_node))
               = pre @ c # [CancelGoal] @ [Feedback Fatal ''aruco1'' cancel_text, Trigger Teleop]
             \<and> (c = Sleep 100 \<or> (\<exists>l. c = Feedback Warn l ''Waiting on a GPS fix...''))"
    by auto
  from a b c d e h show ?thesis by blast
qed

subsection \<open>The calls of a search\<close>

lemma steps_calls:
  assumes "steps ok s s'" and "\<And>e. ok e \<Longrightarrow> \<not> is_call e"
  shows "calls (events s') = calls (events s)"
proof -
  from assms(1) obtain evs where "events s' = events s @ evs" "list_all ok evs"
    by (auto simp: steps_def)
  moreover from this assms(2) have "filter is_call evs = []"
    by (auto simp: list_all_iff filter_empty_conv)
  ultimately show ?thesis by (simp add: calls_def)
qed

lemma nav_event_no_call: "nav_event e \<Longrightarrow> \<not> is_call e"
  by (cases e rule: nav_event.cases) auto

lemma spin_event_no_call: "spin_event e \<Longrightarrow> \<not> is_call e"
  by (cases e rule: spin_event.cases) auto

lemma gps_nav_calls:
  assumes "gps_nav ext d src u ts s = (r, s', ts')"
  shows "calls (events s') = calls (events s) @ [Enter_gps_nav d src u]"
proof -
  have "calls (events s') = calls (events (emit (Enter_gps_nav d src u) s))"
    by (rule steps_calls [OF gps_nav_steps [OF assms]]) (rule nav_event_no_call)
  then show ?thesis by (simp add: calls_def emit_def)
qed

lemma spin_search_calls:
  assumes "spin_search ext src ts s = (r, s', ts')"
  shows "calls (events s') = calls (events s) @ [Enter_spin_search src]"
proof -
  have "calls (events s') = calls (events (emit (Enter_spin_search src) s))"
    by (rule steps_calls [OF spin_search_steps [OF assms]]) (rule spin_event_no_call)
  then show ?thesis by (simp add: calls_def emit_def)
qed

lemma poll_Returned:
  "poll body ts s = (Ret (Some v), s', ts') \<Longrightarrow> \<exists>t s0. body t s0 = Returned v s'"
proof (induction ts arbitrary: s)
  case Nil
  then show ?case by simp
next
  case (Cons t ts)
  then show ?case by (cases "body t s") auto
qed

lemma poll_LoopEnd:
  "poll body ts s = (Ret None, s', ts') \<Longrightarrow> \<exists>t s0. body t s0 = LoopEnd s'"
proof (induction ts arbitrary: s)
  case Nil
  then show ?case by simp
next
  case (Cons t ts)
  then show ?case by (cases "body t s") auto
qed

lemma found_check_frame:
  "found_check (emit e s) = found_check s"
  "found_check (cancelTask s) = found_check s"
  "found_check (task_info txt s) = found_check s"
  by (simp_all add: found_check_def emit_def cancelTask_def task_info_def)

lemma gps_nav_pass_Returned:
  "gps_nav_pass ext d src u t s = Returned p s'
   \<Longrightarrow> found_check s' = Some p \<and> (u \<longrightarrow> significant_change ext p d)"
  by (auto simp: gps_nav_pass_def Let_def found_check_frame
           split: prod.splits bool.splits if_splits option.splits)

lemma spin_search_pass_Returned:
  "spin_search_pass ext t s = Returned p s' \<Longrightarrow> found_check s' = Some p"
  by (auto simp: spin_search_pass_def Let_def found_check_frame
           split: prod.splits bool.splits if_splits option.splits)

lemma isTaskComplete_True:
  "isTaskComplete t s = (True, s') \<Longrightarrow> result_future s' \<noteq> Some Waiting"
  by (auto simp: isTaskComplete_def split: option.splits future.splits)

lemma gps_nav_pass_LoopEnd:
  "gps_nav_pass ext d src u t s = LoopEnd s' \<Longrightarrow> result_future s' \<noteq> Some Waiting"
  by (auto simp: gps_nav_pass_def Let_def dest: isTaskComplete_True
           split: prod.splits bool.splits if_splits option.splits)

lemma report_result_future: "result_future (report_result what src s) = result_future s"
  by (simp add: report_result_def task_info_def task_warn_def task_error_def emit_def
           split: task_result.splits)

lemma gps_nav_Ret:
  assumes "gps_nav ext d src u ts s = (Ret found, s', ts')"
  shows "(\<forall>p. found = Some p \<longrightarrow> found_check s' = Some p \<and> (u \<longrightarrow> significant_change ext p d))
         \<and> (found = None \<longrightarrow> result_future s' \<noteq> Some Waiting)"
proof -
  from assms obtain s1 ts1 s2 where
    p: "poll (gps_nav_pass ext d src u) ts1 s1 = (Ret found, s2, ts')"
    and s': "s' = (case found of Some p \<Rightarrow> s2 | None \<Rightarrow> report_result ''GPS navigation'' src s2)"
    by (auto simp: gps_nav_def Let_def split: option.splits dest!: and_then_Ret)
  show ?thesis
  proof (cases found)
    case None
    with p obtain t s0 where "gps_nav_pass ext d src u t s0 = LoopEnd s2"
      by (auto dest: poll_LoopEnd)
    then have "result_future s2 \<noteq> Some Waiting" by (rule gps_nav_pass_LoopEnd)
    with None s' show ?thesis by (simp add: report_result_future)
  next
    case (Some p)
    with p obtain t s0 where "gps_nav_pass ext d src u t s0 = Returned p s2"
      by (auto dest: poll_Returned)
    then have "found_check s2 = Some p \<and> (u \<longrightarrow> significant_change ext p d)"
      by (rule gps_nav_pass_Returned)
    with Some s' show ?thesis by simp
  qed
qed

lemma spin_search_Some:
  assumes "spin_search ext src ts s = (Ret (Some p), s', ts')"
  shows "found_check s' = Some p"
proof -
  from assms obtain s1 ts1 where "poll (spin_search_pass ext) ts1 s1 = (Ret (Some p), s', ts')"
    by (auto simp: spin_search_def Let_def split: option.splits dest!: and_then_Ret)
  then obtain t s0 where "spin_search_pass ext t s0 = Returned p s'"
    by (auto dest: poll_Returned)
  then show ?thesis by (rule spin_search_pass_Returned)
qed

subsection \<open>The goals of a navigation and of a spin search\<close>

lemma deliver_kept:
  "events (deliver ext t s) = events s"
  "result_future (deliver ext t s) = result_future s"
  using deliver_untouched [of s ext t] by (simp_all add: untouched_def)

lemma isTaskComplete_kept:
  "isTaskComplete t s = (b, s') \<Longrightarrow> events s' = events s \<and> leg s' = leg s \<and> (\<not> b \<longrightarrow> result_future s' \<noteq> None)"
  by (auto simp: isTaskComplete_def split: option.splits future.splits)

lemma itinerary_simps [simp]:
  "itinerary [] = []"
  "itinerary (xs @ ys) = itinerary xs @ itinerary ys"
  "itinerary (Sleep n # xs) = itinerary xs"
  "itinerary (Feedback sev l txt # xs) = itinerary xs"
  "itinerary (Trigger m # xs) = itinerary xs"
  "itinerary (CancelGoal # xs) = CancelGoal # itinerary xs"
  "itinerary (SendGoal g # xs) = SendGoal g # itinerary xs"
  "itinerary (Enter_gps_nav d src u # xs) = Enter_gps_nav d src u # itinerary xs"
  "itinerary (Enter_spin_search src # xs) = Enter_spin_search src # itinerary xs"
  "itinerary (Enter_hex_search # xs) = Enter_hex_search # itinerary xs"
  by (simp_all add: itinerary_def)

lemma wait_kept:
  "poll (wait_for_server ext) ts s = (r, s', ts') \<Longrightarrow>
     events s' = events s \<and> path_planner s' = path_planner s"
proof (induction ts arbitrary: s)
  case Nil
  then show ?case by simp
next
  case (Cons t ts)
  have d: "events (deliver ext t s) = events s" "path_planner (deliver ext t s) = path_planner s"
    using deliver_untouched [of s ext t] by (simp_all add: untouched_def)
  show ?case
  proof (cases "server_ready t")
    case True
    then have "wait_for_server ext t s = LoopEnd (deliver ext t s)"
      by (simp add: wait_for_server_def Let_def)
    with Cons.prems d show ?thesis by auto
  next
    case False
    then have "wait_for_server ext t s = Continue (deliver ext t s)"
      by (simp add: wait_for_server_def Let_def)
    with Cons.prems have "poll (wait_for_server ext) ts (deliver ext t s) = (r, s', ts')"
      by simp
    from Cons.IH [OF this] d show ?thesis by simp
  qed
qed

lemma wait_never_raises:
  "poll (wait_for_server ext) ts s \<noteq> (Raise e, s', ts')"
proof (induction ts arbitrary: s)
  case Nil
  show ?case by simp
next
  case (Cons t ts)
  show ?case
  proof (cases "server_ready t")
    case True
    then have "wait_for_server ext t s = LoopEnd (deliver ext t s)"
      by (simp add: wait_for_server_def Let_def)
    then show ?thesis by simp
  next
    case False
    then have "wait_for_server ext t s = Continue (deliver ext t s)"
      by (simp add: wait_for_server_def Let_def)
    with Cons.IH [of "deliver ext t s"] show ?thesis by simp
  qed
qed

lemma send_goal_never_raises:
  "send_goal ext g ts s \<noteq> (Raise e, s', ts')"
proof -
  obtain v s1 ts1 where w: "poll (wait_for_server ext) ts s = (v, s1, ts1)"
    by (cases "poll (wait_for_server ext) ts s")
  with wait_never_raises [of ext ts s] have "\<And>e. v \<noteq> Raise e" by auto
  with w show ?thesis
    by (cases v) (auto simp: send_goal_def and_then_def Let_def split: list.splits if_splits)
qed

lemma send_goal_sent:
  assumes "send_goal ext g ts s = (r, s', ts')"
  shows "\<exists>k\<le>1. events s' = events s @ take k [SendGoal g] \<and> (r \<noteq> Pending \<longrightarrow> k = 1)"
proof -
  obtain v s1 ts1 where w: "poll (wait_for_server ext) ts s = (v, s1, ts1)"
    by (cases "poll (wait_for_server ext) ts s")
  from wait_kept [OF w] have e1: "events s1 = events s" by simp
  have none: ?thesis if "events s' = events s" "r = Pending"
  proof -
    from that have "(0::nat) \<le> 1 \<and> events s' = events s @ take 0 [SendGoal g] \<and> (r \<noteq> Pending \<longrightarrow> (0::nat) = 1)"
      by simp
    then show ?thesis by blast
  qed
  have one: ?thesis if "events s' = events s @ [SendGoal g]"
  proof -
    from that have "(1::nat) \<le> 1 \<and> events s' = events s @ take 1 [SendGoal g] \<and> (r \<noteq> Pending \<longrightarrow> (1::nat) = 1)"
      by simp
    then show ?thesis by blast
  qed
  show ?thesis
  proof (cases v)
    case (Ret u)
    show ?thesis
    proof (cases ts1)
      case Nil
      with Ret w assms e1 show ?thesis
        by (intro one) (auto simp: send_goal_def and_then_def emit_def)
    next
      case (Cons t ts2)
      with Ret w assms e1 show ?thesis
        by (intro one) (auto simp: send_goal_def and_then_def emit_def Let_def deliver_kept split: if_splits)
    qed
  next
    case (Raise e)
    with w wait_never_raises [of ext ts s e s1 ts1] show ?thesis by simp
  next
    case Pending
    with w assms e1 show ?thesis
      by (intro none) (auto simp: send_goal_def and_then_def)
  qed
qed

lemma send_goal_planner:
  assumes "send_goal ext g ts s = (r, s', ts')"
  shows "path_planner s' = path_planner s"
  using send_goal_steps [of "\<lambda>e. True" g ext ts s r s' ts', OF _ assms] by (simp add: steps_def)

lemma cancelTask_sent:
  "result_future s \<noteq> None \<Longrightarrow> events (cancelTask s) = events s @ [CancelGoal]"
  by (simp add: cancelTask_def emit_def)

lemma gps_nav_pass_parting:
  "itinerary (events (step_exec (gps_nav_pass ext d src u t s)))
     = itinerary (events s) @ parting (gps_nav_pass ext d src u t s)"
proof -
  obtain b s1 where c: "isTaskComplete t (deliver ext t s) = (b, s1)"
    by (cases "isTaskComplete t (deliver ext t s)")
  from isTaskComplete_kept [OF c] have k: "events s1 = events s" "\<not> b \<longrightarrow> result_future s1 \<noteq> None"
    by (simp_all add: deliver_kept)
  show ?thesis
  proof (cases b)
    case True
    with c k show ?thesis by (simp add: gps_nav_pass_def)
  next
    case False
    with k have f: "result_future s1 \<noteq> None" by simp
    from False c k(1) f show ?thesis
      by (auto simp: gps_nav_pass_def Let_def cancel_text_def cancelTask_def emit_def task_info_def
               split: option.splits)
  qed
qed

lemma spin_search_pass_parting:
  "itinerary (events (step_exec (spin_search_pass ext t s)))
     = itinerary (events s) @ parting (spin_search_pass ext t s)"
proof -
  obtain b s1 where c: "isTaskComplete t (deliver ext t s) = (b, s1)"
    by (cases "isTaskComplete t (deliver ext t s)")
  from isTaskComplete_kept [OF c] have k: "events s1 = events s" "\<not> b \<longrightarrow> result_future s1 \<noteq> None"
    by (simp_all add: deliver_kept)
  show ?thesis
  proof (cases b)
    case True
    with c k show ?thesis by (simp add: spin_search_pass_def)
  next
    case False
    with k have f: "result_future s1 \<noteq> None" by simp
    from False c k(1) f show ?thesis
      by (auto simp: spin_search_pass_def Let_def cancel_text_def cancelTask_def emit_def
               split: option.splits)
  qed
qed

lemma poll_withdrawn:
  assumes body: "\<And>t s. itinerary (events (step_exec (body t s))) = itinerary (events s) @ parting (body t s)"
    and run: "poll body ts s = (r, s', ts')"
  shows "itinerary (events s') = itinerary (events s) @ withdrawn r"
  using run
proof (induction ts arbitrary: s)
  case Nil
  then show ?case by auto
next
  case (Cons t ts)
  show ?case
  proof (cases "body t s")
    case (Continue s1)
    with Cons.prems have "poll body ts s1 = (r, s', ts')" by simp
    from Cons.IH [OF this] body [of t s] Continue show ?thesis by simp
  next
    case (LoopEnd s1)
    with Cons.prems body [of t s] show ?thesis by auto
  next
    case (Returned v s1)
    with Cons.prems body [of t s] show ?thesis by auto
  next
    case (Raised e s1)
    with Cons.prems body [of t s] show ?thesis by auto
  qed
qed

lemma report_result_itinerary:
  "itinerary (events (report_result what src s)) = itinerary (events s)"
  by (simp add: report_result_def task_info_def task_warn_def task_error_def emit_def
           split: task_result.splits)

lemma plan_path_route:
  "plan_path ext s d = Some path \<Longrightarrow> path = route ext (path_planner s) (filtered_gps s) d"
  by (auto simp: plan_path_def route_def split: if_splits)

lemma gps_nav_itinerary:
  assumes run: "gps_nav ext d src u ts s = (r, s', ts')"
  shows "\<exists>k. 0 < k \<and> k \<le> 2
          \<and> itinerary (events s') = itinerary (events s)
              @ take k [Enter_gps_nav d src u,
                        SendGoal (FollowGPSWaypoints (route ext (path_planner s) (filtered_gps s) d))]
              @ withdrawn r
          \<and> ((\<exists>found. r = Ret found) \<longrightarrow> k = 2)"
proof -
  let ?s0 = "task_info (''Starting GPS navigation'' @ src) (emit (Enter_gps_nav d src u) s)"
  let ?g = "FollowGPSWaypoints (route ext (path_planner s) (filtered_gps s) d)"
  have e0: "itinerary (events ?s0) = itinerary (events s) @ [Enter_gps_nav d src u]"
    by (simp add: task_info_def emit_def)
  have s0: "path_planner ?s0 = path_planner s" "filtered_gps ?s0 = filtered_gps s"
    by (simp_all add: task_info_def emit_def)
  have fin: ?thesis
    if "itinerary (events s') = itinerary (events s) @ take k [Enter_gps_nav d src u, SendGoal ?g] @ withdrawn r"
      and "0 < k" "k \<le> 2" "(\<exists>found. r = Ret found) \<longrightarrow> k = 2" for k
    using that by blast
  show ?thesis
  proof (cases "plan_path ext ?s0 d")
    case None
    from run [unfolded gps_nav_def Let_def] None
    have "r = Raise (''Invalid path planner provided: '' @ path_planner ?s0)" "s' = ?s0"
      by auto
    then have "withdrawn r = []" "itinerary (events s') = itinerary (events ?s0)"
      "\<forall>found. r \<noteq> Ret found"
      by (simp_all add: cancel_text_def)
    with e0 show ?thesis by (intro fin [of 1]) simp_all
  next
    case (Some path)
    then have path: "path = route ext (path_planner s) (filtered_gps s) d"
      using plan_path_route [OF Some] s0 by simp
    obtain v1 s1 ts1 where sg: "send_goal ext ?g ts ?s0 = (v1, s1, ts1)"
      by (cases "send_goal ext ?g ts ?s0")
    from send_goal_sent [OF sg] obtain j where j:
      "j \<le> 1" "events s1 = events ?s0 @ take j [SendGoal ?g]" "v1 \<noteq> Pending \<longrightarrow> j = 1"
      by blast
    from run [unfolded gps_nav_def Let_def followGpsWaypoints_def] Some path sg have rest:
      "and_then (v1, s1, ts1) (\<lambda>_ ts s.
          and_then (poll (gps_nav_pass ext d src u) ts s) (\<lambda>found ts s.
            case found of
              Some p \<Rightarrow> (Ret (Some p), s, ts)
            | None \<Rightarrow> (Ret None, report_result ''GPS navigation'' src s, ts))) = (r, s', ts')"
      by (simp only: option.case)
    show ?thesis
    proof (cases v1)
      case Pending
      with rest have "r = Pending" "s' = s1" by (simp_all add: and_then_def)
      moreover from j(1) have "j = 0 \<or> j = 1" by auto
      ultimately show ?thesis using j(2) e0
        by (intro fin [of "Suc j"]) auto
    next
      case (Raise e)
      with sg send_goal_never_raises [of ext ?g ts ?s0 e s1 ts1] show ?thesis by simp
    next
      case (Ret b)
      with j have e1: "itinerary (events s1) = itinerary (events s) @ [Enter_gps_nav d src u, SendGoal ?g]"
        using e0 by simp
      obtain v2 s2 ts2 where p: "poll (gps_nav_pass ext d src u) ts1 s1 = (v2, s2, ts2)"
        by (cases "poll (gps_nav_pass ext d src u) ts1 s1")
      have e2: "itinerary (events s2) = itinerary (events s1) @ withdrawn v2"
        by (rule poll_withdrawn [OF _ p]) (rule gps_nav_pass_parting)
      from rest Ret p have "r = v2 \<and> itinerary (events s') = itinerary (events s2)"
        by (auto simp: and_then_def report_result_itinerary split: outcome.splits option.splits)
      with e1 e2 show ?thesis by (intro fin [of 2]) simp_all
    qed
  qed
qed

lemma spin_search_itinerary:
  assumes run: "spin_search ext src ts s = (r, s', ts')"
  shows "\<exists>k. 0 < k \<and> k \<le> 2
          \<and> itinerary (events s') = itinerary (events s)
              @ take k [Enter_spin_search src, SendGoal (Spin (314 / 100) 10)]
              @ withdrawn r
          \<and> ((\<exists>found. r = Ret found) \<longrightarrow> k = 2)"
proof -
  let ?s0 = "task_info (''Starting spin search'' @ src) (emit (Enter_spin_search src) s)"
  let ?g = "Spin (314 / 100) 10"
  have e0: "itinerary (events ?s0) = itinerary (events s) @ [Enter_spin_search src]"
    by (simp add: task_info_def emit_def)
  have fin: ?thesis
    if "itinerary (events s') = itinerary (events s) @ take k [Enter_spin_search src, SendGoal ?g] @ withdrawn r"
      and "0 < k" "k \<le> 2" "(\<exists>found. r = Ret found) \<longrightarrow> k = 2" for k
    using that by blast
  obtain v1 s1 ts1 where sg: "send_goal ext ?g ts ?s0 = (v1, s1, ts1)"
    by (cases "send_goal ext ?g ts ?s0")
  from send_goal_sent [OF sg] obtain j where j:
    "j \<le> 1" "events s1 = events ?s0 @ take j [SendGoal ?g]" "v1 \<noteq> Pending \<longrightarrow> j = 1"
    by blast
  from run [unfolded spin_search_def Let_def spin_def] sg have rest:
    "and_then (v1, s1, ts1) (\<lambda>_ ts s.
        and_then (poll (spin_search_pass ext) ts s) (\<lambda>found ts s.
          case found of
            Some p \<Rightarrow> (Ret (Some p), s, ts)
          | None \<Rightarrow> (Ret None, report_result ''Spin search'' src s, ts))) = (r, s', ts')"
    by (simp only:)
  show ?thesis
  proof (cases v1)
    case Pending
    with rest have "r = Pending" "s' = s1" by (simp_all add: and_then_def)
    moreover from j(1) have "j = 0 \<or> j = 1" by auto
    ultimately show ?thesis using j(2) e0
      by (intro fin [of "Suc j"]) auto
  next
    case (Raise e)
    with sg send_goal_never_raises [of ext ?g ts ?s0 e s1 ts1] show ?thesis by simp
  next
    case (Ret b)
    with j have e1: "itinerary (events s1) = itinerary (events s) @ [Enter_spin_search src, SendGoal ?g]"
      using e0 by simp
    obtain v2 s2 ts2 where p: "poll (spin_search_pass ext) ts1 s1 = (v2, s2, ts2)"
      by (cases "poll (spin_search_pass ext) ts1 s1")
    have e2: "itinerary (events s2) = itinerary (events s1) @ withdrawn v2"
      by (rule poll_withdrawn [OF _ p]) (rule spin_search_pass_parting)
    from rest Ret p have "r = v2 \<and> itinerary (events s') = itinerary (events s2)"
      by (auto simp: and_then_def report_result_itinerary split: outcome.splits option.splits)
    with e1 e2 show ?thesis by (intro fin [of 2]) simp_all
  qed
qed

subsection \<open>The convergence loop\<close>

lemma update_loop_calls:
  "update_loop ext src loc ts s = (r, s', ts') \<Longrightarrow>
     (\<exists>dests. calls (events s') = calls (events s) @ map (\<lambda>d. Enter_gps_nav d src True) (loc # dests)
              \<and> restarts ext loc dests)
     \<and> (r = Ret () \<longrightarrow> result_future s' \<noteq> Some Waiting)"
proof (induction ext src loc ts s rule: update_loop.induct)
  case (1 ext src loc ts s)
  obtain v s1 ts1 where g: "gps_nav ext loc src True ts s = (v, s1, ts1)"
    by (cases "gps_nav ext loc src True ts s")
  note c1 = gps_nav_calls [OF g]
  note run = "1.prems" [unfolded update_loop.simps [of ext src loc ts s]]
  have stop: ?case if "s' = s1" "r \<noteq> Ret () \<or> result_future s1 \<noteq> Some Waiting"
  proof -
    from that c1 have "calls (events s') = calls (events s) @ map (\<lambda>d. Enter_gps_nav d src True) (loc # [])
              \<and> restarts ext loc []" by simp
    then have "\<exists>dests. calls (events s') = calls (events s) @ map (\<lambda>d. Enter_gps_nav d src True) (loc # dests)
              \<and> restarts ext loc dests" by blast
    with that show ?thesis by auto
  qed
  show ?case
  proof (cases v)
    case (Ret found)
    show ?thesis
    proof (cases found)
      case None
      with Ret g have "result_future s1 \<noteq> Some Waiting" by (auto dest: gps_nav_Ret)
      moreover from None Ret g run have "s' = s1" by simp
      ultimately show ?thesis by (intro stop) auto
    next
      case (Some p)
      with Ret g have change: "significant_change ext p loc" by (auto dest: gps_nav_Ret)
      from Some Ret g run have rest: "update_loop ext src p ts1 s1 = (r, s', ts')" by simp
      with Some Ret g have
        "(\<exists>dests. calls (events s') = calls (events s1) @ map (\<lambda>d. Enter_gps_nav d src True) (p # dests)
              \<and> restarts ext p dests)
         \<and> (r = Ret () \<longrightarrow> result_future s' \<noteq> Some Waiting)"
        by (intro "1.IH") auto
      then obtain dests where d:
        "calls (events s') = calls (events s1) @ map (\<lambda>d. Enter_gps_nav d src True) (p # dests)"
        "restarts ext p dests" "r = Ret () \<longrightarrow> result_future s' \<noteq> Some Waiting"
        by blast
      from d(1) c1 have
        "calls (events s') = calls (events s) @ map (\<lambda>d. Enter_gps_nav d src True) (loc # p # dests)"
        by simp
      moreover from d(2) change have "restarts ext loc (p # dests)" by simp
      ultimately have "\<exists>dests. calls (events s') = calls (events s) @ map (\<lambda>d. Enter_gps_nav d src True) (loc # dests)
              \<and> restarts ext loc dests" by blast
      with d(3) show ?thesis by blast
    qed
  next
    case (Raise e)
    with g run show ?thesis by (intro stop) auto
  next
    case Pending
    with g run show ?thesis by (intro stop) auto
  qed
qed

lemma gps_nav_planner:
  "gps_nav ext d src u ts s = (r, s', ts') \<Longrightarrow> path_planner s' = path_planner s"
  by (drule gps_nav_steps') (simp add: steps_def)

lemma update_loop_itinerary:
  "update_loop ext src loc ts s = (Ret (), s', ts') \<Longrightarrow>
     \<exists>fixes dests. length fixes = length dests \<and> restarts ext loc dests
        \<and> itinerary (events s') = itinerary (events s)
             @ convergence ext (path_planner s) src ((filtered_gps s, loc) # zip fixes dests)"
proof (induction ext src loc ts s rule: update_loop.induct)
  case (1 ext src loc ts s)
  obtain v s1 ts1 where g: "gps_nav ext loc src True ts s = (v, s1, ts1)"
    by (cases "gps_nav ext loc src True ts s")
  note run = "1.prems" [unfolded update_loop.simps [of ext src loc ts s]]
  from gps_nav_itinerary [OF g] obtain k where k:
    "itinerary (events s1) = itinerary (events s)
       @ take k [Enter_gps_nav loc src True,
                 SendGoal (FollowGPSWaypoints (route ext (path_planner s) (filtered_gps s) loc))]
       @ withdrawn v"
    "(\<exists>found. v = Ret found) \<longrightarrow> k = 2"
    by blast
  show ?case
  proof (cases v)
    case (Ret found)
    with k have it: "itinerary (events s1) = itinerary (events s)
       @ [Enter_gps_nav loc src True,
          SendGoal (FollowGPSWaypoints (route ext (path_planner s) (filtered_gps s) loc))]
       @ withdrawn (Ret found)"
      by simp
    show ?thesis
    proof (cases found)
      case None
      with Ret g run have "s' = s1" by simp
      with it None have "length ([]::geopose option list) = length ([]::geopose list) \<and> restarts ext loc []
        \<and> itinerary (events s') = itinerary (events s)
             @ convergence ext (path_planner s) src ((filtered_gps s, loc) # zip [] [])"
        by simp
      then show ?thesis by blast
    next
      case (Some p)
      with Ret g have change: "significant_change ext p loc" by (auto dest: gps_nav_Ret)
      from Some Ret g run have rest: "update_loop ext src p ts1 s1 = (Ret (), s', ts')" by simp
      with Some Ret g have
        "\<exists>fixes dests. length fixes = length dests \<and> restarts ext p dests
           \<and> itinerary (events s') = itinerary (events s1)
                @ convergence ext (path_planner s1) src ((filtered_gps s1, p) # zip fixes dests)"
        by (intro "1.IH") auto
      then obtain gs dests where d:
        "length gs = length dests" "restarts ext p dests"
        "itinerary (events s') = itinerary (events s1)
                @ convergence ext (path_planner s1) src ((filtered_gps s1, p) # zip gs dests)"
        by blast
      from gps_nav_planner [OF g] have pl: "path_planner s1 = path_planner s" .
      from d it Some change pl
      have "length (filtered_gps s1 # gs) = length (p # dests) \<and> restarts ext loc (p # dests)
        \<and> itinerary (events s') = itinerary (events s)
             @ convergence ext (path_planner s) src
                 ((filtered_gps s, loc) # zip (filtered_gps s1 # gs) (p # dests))"
        by simp
      then show ?thesis by blast
    qed
  next
    case (Raise e)
    with g run show ?thesis by simp
  next
    case Pending
    with g run show ?thesis by simp
  qed
qed

text \<open>C6. In the convergence loop of a target leg a pass of the polling loop that finds the
  navigation unfinished and no cancel request compares the tracked pose with the pose being
  navigated to. When the latitudes or the longitudes differ by more than the threshold (the
  double that \<^verbatim>\<open>0.000005\<close> denotes, less than \<open>10\<^sup>-\<^sup>2\<^sup>1\<close> above five millionths of a degree) the
  pass reports the improved location, sends the cancellation of the navigation to the motion
  server, sleeps and returns the tracked pose; the loop then calls the navigation again with
  that pose, and the navigation sends the goal whose path is the one planned to that pose.
  Otherwise the pass only sleeps and the navigation goes on. A pass that finds the
  navigation complete ends it with nothing sent, and the loop then ends. So a loop that
  returns has sent, in this order, for every destination of a chain that starts at the found
  pose and in which each destination is significantly away from the one before, the goal
  planned to it and, for all but the last, its cancellation; it leaves no navigation
  outstanding.\<close>

theorem convergence_restarts_on_significant_change:
  "(update_loop ext src loc ts s = (r, s', ts') \<longrightarrow>
      (\<exists>dests. calls (events s') = calls (events s) @ map (\<lambda>d. Enter_gps_nav d src True) (loc # dests)
               \<and> restarts ext loc dests)
      \<and> (r = Ret () \<longrightarrow>
            result_future s' \<noteq> Some Waiting
            \<and> (\<exists>fixes dests. length fixes = length dests \<and> restarts ext loc dests
                  \<and> itinerary (events s') = itinerary (events s)
                       @ convergence ext (path_planner s) src ((filtered_gps s, loc) # zip fixes dests))))
   \<and> (isTaskComplete t (deliver ext t s) = (False, s1) \<and> \<not> is_cancel_requested s1
        \<and> found_check s1 = Some p \<longrightarrow>
        events s1 = events s
        \<and> poll (gps_nav_pass ext dest src True) (t # ts) s
          = (if significant_change ext p dest
             then (Ret (Some p),
                   s1\<lparr>events := events s1 @ [Sleep 100,
                                               Feedback Info (leg s1) (''Improved GPS location found'' @ src),
                                               CancelGoal,
                                               Sleep 500]\<rparr>, ts)
             else poll (gps_nav_pass ext dest src True) ts (s1\<lparr>events := events s1 @ [Sleep 100]\<rparr>)))
   \<and> (isTaskComplete t (deliver ext t s) = (True, s1) \<longrightarrow>
        events s1 = events s
        \<and> poll (gps_nav_pass ext dest src True) (t # ts) s = (Ret None, s1, ts))
   \<and> (gps_nav ext loc src True ts s = (Ret found, s1, ts1) \<longrightarrow>
        itinerary (events s1) = itinerary (events s)
          @ [Enter_gps_nav loc src True,
             SendGoal (FollowGPSWaypoints (route ext (path_planner s) (filtered_gps s) loc))]
          @ (if found = None then [] else [CancelGoal]))
   \<and> (gps_nav ext loc src True ts s = (Ret (Some p), s1, ts1) \<longrightarrow>
        significant_change ext p loc \<and> found_check s1 = Some p
        \<and> update_loop ext src loc ts s = update_loop ext src p ts1 s1)
   \<and> (gps_nav ext loc src True ts s = (Ret None, s1, ts1) \<longrightarrow>
        update_loop ext src loc ts s = (Ret (), s1, ts1))
   \<and> significant_change ext p dest
       = (\<bar>float_minus ext (latitude p) (latitude dest)\<bar> > update_threshold
          \<or> \<bar>float_minus ext (longitude p) (longitude dest)\<bar> > update_threshold)
   \<and> update_threshold = 5902958103587057 / 2 ^ 70
   \<and> 5 / 1000000 < update_threshold \<and> update_threshold < 5 / 1000000 + 1 / 10 ^ 21"
proof (intro conjI impI)
  assume run: "update_loop ext src loc ts s = (r, s', ts')"
  from update_loop_calls [OF run]
  show "\<exists>dests. calls (events s') = calls (events s) @ map (\<lambda>d. Enter_gps_nav d src True) (loc # dests)
               \<and> restarts ext loc dests"
    and "r = Ret () \<Longrightarrow> result_future s' \<noteq> Some Waiting"
    by blast+
  assume "r = Ret ()"
  with run show "\<exists>fixes dests. length fixes = length dests \<and> restarts ext loc dests
                  \<and> itinerary (events s') = itinerary (events s)
                       @ convergence ext (path_planner s) src ((filtered_gps s, loc) # zip fixes dests)"
    by (intro update_loop_itinerary) simp
next
  assume a: "isTaskComplete t (deliver ext t s) = (False, s1) \<and> \<not> is_cancel_requested s1
        \<and> found_check s1 = Some p"
  then have k: "events s1 = events s" "result_future s1 \<noteq> None"
    using isTaskComplete_kept [of t "deliver ext t s" False s1] by (simp_all add: deliver_kept)
  then show "events s1 = events s" by simp
  from a k(2) show "poll (gps_nav_pass ext dest src True) (t # ts) s
          = (if significant_change ext p dest
             then (Ret (Some p),
                   s1\<lparr>events := events s1 @ [Sleep 100,
                                               Feedback Info (leg s1) (''Improved GPS location found'' @ src),
                                               CancelGoal,
                                               Sleep 500]\<rparr>, ts)
             else poll (gps_nav_pass ext dest src True) ts (s1\<lparr>events := events s1 @ [Sleep 100]\<rparr>))"
    by (simp add: gps_nav_pass_def Let_def found_check_frame)
       (auto simp: emit_def cancelTask_def task_info_def)
next
  assume a: "isTaskComplete t (deliver ext t s) = (True, s1)"
  then show "events s1 = events s"
    using isTaskComplete_kept [of t "deliver ext t s" True s1] by (simp add: deliver_kept)
  from a show "poll (gps_nav_pass ext dest src True) (t # ts) s = (Ret None, s1, ts)"
    by (simp add: gps_nav_pass_def)
next
  assume g: "gps_nav ext loc src True ts s = (Ret found, s1, ts1)"
  from gps_nav_itinerary [OF g] obtain k where
    "itinerary (events s1) = itinerary (events s)
       @ take k [Enter_gps_nav loc src True,
                 SendGoal (FollowGPSWaypoints (route ext (path_planner s) (filtered_gps s) loc))]
       @ withdrawn (Ret found)"
    "k = 2"
    by blast
  then show "itinerary (events s1) = itinerary (events s)
          @ [Enter_gps_nav loc src True,
             SendGoal (FollowGPSWaypoints (route ext (path_planner s) (filtered_gps s) loc))]
          @ (if found = None then [] else [CancelGoal])"
    by (cases found) simp_all
next
  assume a: "gps_nav ext loc src True ts s = (Ret (Some p), s1, ts1)"
  then show "significant_change ext p loc" and "found_check s1 = Some p"
    by (auto dest: gps_nav_Ret)
  from a show "update_loop ext src loc ts s = update_loop ext src p ts1 s1"
    by (simp add: update_loop.simps [of ext src loc ts s])
next
  assume "gps_nav ext loc src True ts s = (Ret None, s1, ts1)"
  then show "update_loop ext src loc ts s = (Ret (), s1, ts1)"
    by (simp add: update_loop.simps [of ext src loc ts s])
next
  show "significant_change ext p dest
       = (\<bar>float_minus ext (latitude p) (latitude dest)\<bar> > update_threshold
          \<or> \<bar>float_minus ext (longitude p) (longitude dest)\<bar> > update_threshold)"
    by (simp add: significant_change_def)
next
  show "update_threshold = 5902958103587057 / 2 ^ 70"
    and "5 / 1000000 < update_threshold"
    and "update_threshold < 5 / 1000000 + 1 / 10 ^ 21"
    by (simp_all add: update_threshold_def)
qed

theorem convergence_restarts_on_significant_change_witness:
  "fst (update_loop sim_ext '' (aruco tag)'' marker_pose1
          [idle, idle, resighting, idle, idle, arrived] tracking_node) = Ret ()
   \<and> itinerary (events (exec_of (update_loop sim_ext '' (aruco tag)'' marker_pose1
          [idle, idle, resighting, idle, idle, arrived] tracking_node)))
       = [Enter_gps_nav marker_pose1 '' (aruco tag)'' True,
          SendGoal (FollowGPSWaypoints [marker_pose1]),
          CancelGoal,
          Enter_gps_nav marker_pose2 '' (aruco tag)'' True,
          SendGoal (FollowGPSWaypoints [marker_pose2])]
   \<and> result_future (exec_of (update_loop sim_ext '' (aruco tag)'' marker_pose1
          [idle, idle, resighting, idle, idle, arrived] tracking_node)) \<noteq> Some Waiting
   \<and> (\<exists>fixes dests. length fixes = length dests \<and> restarts sim_ext marker_pose1 dests
         \<and> itinerary (events (exec_of (update_loop sim_ext '' (aruco tag)'' marker_pose1
                [idle, idle, resighting, idle, idle, arrived] tracking_node)))
             = itinerary (events tracking_node)
                 @ convergence sim_ext (path_planner tracking_node) '' (aruco tag)''
                     ((filtered_gps tracking_node, marker_pose1) # zip fixes dests))
   \<and> isTaskComplete resighting (deliver sim_ext resighting (tracking_node\<lparr>result_future := Some Waiting\<rparr>))
       = (False, deliver sim_ext resighting (tracking_node\<lparr>result_future := Some Waiting\<rparr>))
   \<and> found_check (deliver sim_ext resighting (tracking_node\<lparr>result_future := Some Waiting\<rparr>))
       = Some marker_pose2
   \<and> significant_change sim_ext marker_pose2 marker_pose1
   \<and> fst (poll (gps_nav_pass sim_ext marker_pose1 '' (aruco tag)'' True) [resighting]
            (tracking_node\<lparr>result_future := Some Waiting\<rparr>)) = Ret (Some marker_pose2)
   \<and> events (exec_of (poll (gps_nav_pass sim_ext marker_pose1 '' (aruco tag)'' True) [resighting]
            (tracking_node\<lparr>result_future := Some Waiting\<rparr>)))
       = [Sleep 100, Feedback Info ''aruco1'' ''Improved GPS location found (aruco tag)'', CancelGoal,
          Sleep 500]
   \<and> \<not> significant_change sim_ext marker_pose1 marker_pose1
   \<and> fst (isTaskComplete arrived (deliver sim_ext arrived (tracking_node\<lparr>result_future := Some Waiting\<rparr>)))
   \<and> fst (poll (gps_nav_pass sim_ext marker_pose1 '' (aruco tag)'' True) [arrived, idle]
            (tracking_node\<lparr>result_future := Some Waiting\<rparr>)) = Ret None
   \<and> fst (gps_nav sim_ext marker_pose1 '' (aruco tag)'' True [idle, idle, resighting] tracking_node)
       = Ret (Some marker_pose2)
   \<and> itinerary (events (exec_of
         (gps_nav sim_ext marker_pose1 '' (aruco tag)'' True [idle, idle, resighting] tracking_node)))
       = [Enter_gps_nav marker_pose1 '' (aruco tag)'' True,
          SendGoal (FollowGPSWaypoints [marker_pose1]),
          CancelGoal]
   \<and> update_loop sim_ext '' (aruco tag)'' marker_pose1 [idle, idle, resighting] tracking_node
       = update_loop sim_ext '' (aruco tag)'' marker_pose2 []
           (exec_of (gps_nav sim_ext marker_pose1 '' (aruco tag)'' True [idle, idle, resighting] tracking_node))
   \<and> fst (gps_nav sim_ext marker_pose1 '' (aruco tag)'' True [idle, idle, arrived] tracking_node) = Ret None
   \<and> update_loop sim_ext '' (aruco tag)'' marker_pose1 [idle, idle, arrived] tracking_node
       = (Ret (), exec_of (gps_nav sim_ext marker_pose1 '' (aruco tag)'' True [idle, idle, arrived] tracking_node), [])"
proof -
  let ?src = "'' (aruco tag)''"
  let ?ts = "[idle, idle, resighting, idle, idle, arrived]"
  let ?x = "update_loop sim_ext ?src marker_pose1 ?ts tracking_node"
  let ?w = "tracking_node\<lparr>result_future := Some Waiting\<rparr>"
  let ?s1 = "deliver sim_ext resighting ?w"
  note inst = convergence_restarts_on_significant_change [where ext = sim_ext and src = ?src]
  have a: "fst ?x = Ret ()" by (simp add: model_defs sim_defs update_loop.simps)
  have b: "itinerary (events (exec_of ?x))
       = [Enter_gps_nav marker_pose1 ?src True, SendGoal (FollowGPSWaypoints [marker_pose1]), CancelGoal,
          Enter_gps_nav marker_pose2 ?src True, SendGoal (FollowGPSWaypoints [marker_pose2])]"
    by (simp add: model_defs sim_defs update_loop.simps)
  from inst [where loc = marker_pose1 and ts = ?ts and s = tracking_node and r = "Ret ()"
               and s' = "exec_of ?x" and ts' = "snd (snd ?x)"]
  have "?x = (Ret (), exec_of ?x, snd (snd ?x)) \<longrightarrow>
      (\<exists>dests. calls (events (exec_of ?x)) = calls (events tracking_node)
                   @ map (\<lambda>d. Enter_gps_nav d ?src True) (marker_pose1 # dests)
               \<and> restarts sim_ext marker_pose1 dests)
      \<and> (Ret () = Ret () \<longrightarrow>
            result_future (exec_of ?x) \<noteq> Some Waiting
            \<and> (\<exists>fixes dests. length fixes = length dests \<and> restarts sim_ext marker_pose1 dests
                  \<and> itinerary (events (exec_of ?x)) = itinerary (events tracking_node)
                       @ convergence sim_ext (path_planner tracking_node) ?src
                           ((filtered_gps tracking_node, marker_pose1) # zip fixes dests)))"
    by (rule conjunct1)
  with run_collapse [OF a]
  have c: "result_future (exec_of ?x) \<noteq> Some Waiting"
    and c': "\<exists>fixes dests. length fixes = length dests \<and> restarts sim_ext marker_pose1 dests
                  \<and> itinerary (events (exec_of ?x)) = itinerary (events tracking_node)
                       @ convergence sim_ext (path_planner tracking_node) ?src
                           ((filtered_gps tracking_node, marker_pose1) # zip fixes dests)"
    by blast+
  have d: "isTaskComplete resighting ?s1 = (False, ?s1)"
    and e: "\<not> is_cancel_requested ?s1"
    and f: "found_check ?s1 = Some marker_pose2"
    and g: "significant_change sim_ext marker_pose2 marker_pose1"
    and h: "\<not> significant_change sim_ext marker_pose1 marker_pose1"
    by (simp_all add: model_defs sim_defs)
  have le: "leg ?s1 = ''aruco1''" "events ?s1 = []"
    by (simp_all add: model_defs sim_defs)
  let ?p = "poll (gps_nav_pass sim_ext marker_pose1 ?src True) [resighting] ?w"
  from inst [where dest = marker_pose1 and t = resighting
               and ts = "[]" and s = ?w and ?s1.0 = ?s1 and p = marker_pose2]
  have "isTaskComplete resighting ?s1 = (False, ?s1) \<and> \<not> is_cancel_requested ?s1
        \<and> found_check ?s1 = Some marker_pose2 \<longrightarrow>
        events ?s1 = events ?w
        \<and> ?p = (if significant_change sim_ext marker_pose2 marker_pose1
             then (Ret (Some marker_pose2),
                   ?s1\<lparr>events := events ?s1 @ [Sleep 100,
                                               Feedback Info (leg ?s1) (''Improved GPS location found'' @ ?src),
                                               CancelGoal,
                                               Sleep 500]\<rparr>, [])
             else poll (gps_nav_pass sim_ext marker_pose1 ?src True) [] (?s1\<lparr>events := events ?s1 @ [Sleep 100]\<rparr>))"
    by (rule conjunct1 [OF conjunct2])
  with d e f g
  have "?p = (Ret (Some marker_pose2),
                   ?s1\<lparr>events := events ?s1 @ [Sleep 100,
                                               Feedback Info (leg ?s1) (''Improved GPS location found'' @ ?src),
                                               CancelGoal,
                                               Sleep 500]\<rparr>, [])"
    by (simp only: if_True simp_thms)
  then have i: "fst ?p = Ret (Some marker_pose2)"
    and i': "events (exec_of ?p)
       = [Sleep 100, Feedback Info ''aruco1'' ''Improved GPS location found (aruco tag)'', CancelGoal,
          Sleep 500]"
    using le by (simp_all add: exec_of_def)
  let ?c1 = "isTaskComplete arrived (deliver sim_ext arrived ?w)"
  have j: "fst ?c1" by (simp add: model_defs sim_defs)
  then have j': "?c1 = (True, snd ?c1)" by (cases ?c1) simp
  from inst [where dest = marker_pose1 and t = arrived
               and ts = "[idle]" and s = ?w and ?s1.0 = "snd ?c1"]
  have "?c1 = (True, snd ?c1) \<longrightarrow>
        events (snd ?c1) = events ?w
        \<and> poll (gps_nav_pass sim_ext marker_pose1 ?src True) [arrived, idle] ?w
          = (Ret None, snd ?c1, [idle])"
    by (rule conjunct1 [OF conjunct2 [OF conjunct2]])
  with j' have "poll (gps_nav_pass sim_ext marker_pose1 ?src True) [arrived, idle] ?w
          = (Ret None, snd ?c1, [idle])"
    by blast
  then have k: "fst (poll (gps_nav_pass sim_ext marker_pose1 ?src True) [arrived, idle] ?w) = Ret None"
    by (simp only: fst_conv)
  let ?n1 = "gps_nav sim_ext marker_pose1 ?src True [idle, idle, resighting] tracking_node"
  have n1: "fst ?n1 = Ret (Some marker_pose2)" "snd (snd ?n1) = []"
    by (simp_all add: model_defs sim_defs)
  from run_collapse [OF n1(1)] n1(2) have n1': "?n1 = (Ret (Some marker_pose2), exec_of ?n1, [])"
    by simp
  have tn: "itinerary (events tracking_node) = []" "path_planner tracking_node = ''basicPathPlanner''"
    "route sim_ext ''basicPathPlanner'' (filtered_gps tracking_node) marker_pose1 = [marker_pose1]"
    by (simp_all add: sim_defs route_def)
  from inst [where loc = marker_pose1 and ts = "[idle, idle, resighting]" and s = tracking_node
               and found = "Some marker_pose2" and ?s1.0 = "exec_of ?n1" and ?ts1.0 = "[]"]
  have "?n1 = (Ret (Some marker_pose2), exec_of ?n1, []) \<longrightarrow>
        itinerary (events (exec_of ?n1)) = itinerary (events tracking_node)
          @ [Enter_gps_nav marker_pose1 ?src True,
             SendGoal (FollowGPSWaypoints (route sim_ext (path_planner tracking_node)
                                             (filtered_gps tracking_node) marker_pose1))]
          @ (if Some marker_pose2 = None then [] else [CancelGoal])"
    by (rule conjunct1 [OF conjunct2 [OF conjunct2 [OF conjunct2]]])
  with n1' have "itinerary (events (exec_of ?n1)) = itinerary (events tracking_node)
          @ [Enter_gps_nav marker_pose1 ?src True,
             SendGoal (FollowGPSWaypoints (route sim_ext (path_planner tracking_node)
                                             (filtered_gps tracking_node) marker_pose1))]
          @ (if Some marker_pose2 = None then [] else [CancelGoal])"
    by blast
  then have l0: "itinerary (events (exec_of ?n1))
       = [Enter_gps_nav marker_pose1 ?src True, SendGoal (FollowGPSWaypoints [marker_pose1]), CancelGoal]"
    by (simp add: tn)
  from inst [where loc = marker_pose1 and ts = "[idle, idle, resighting]" and s = tracking_node
               and p = marker_pose2 and ?s1.0 = "exec_of ?n1" and ?ts1.0 = "[]"]
  have "?n1 = (Ret (Some marker_pose2), exec_of ?n1, []) \<longrightarrow>
        significant_change sim_ext marker_pose2 marker_pose1
        \<and> found_check (exec_of ?n1) = Some marker_pose2
        \<and> update_loop sim_ext ?src marker_pose1 [idle, idle, resighting] tracking_node
            = update_loop sim_ext ?src marker_pose2 [] (exec_of ?n1)"
    by (rule conjunct1 [OF conjunct2 [OF conjunct2 [OF conjunct2 [OF conjunct2]]]])
  with n1' have l: "update_loop sim_ext ?src marker_pose1 [idle, idle, resighting] tracking_node
            = update_loop sim_ext ?src marker_pose2 [] (exec_of ?n1)"
    by blast
  let ?n2 = "gps_nav sim_ext marker_pose1 ?src True [idle, idle, arrived] tracking_node"
  have n2: "fst ?n2 = Ret None" "snd (snd ?n2) = []"
    by (simp_all add: model_defs sim_defs)
  from run_collapse [OF n2(1)] n2(2) have n2': "?n2 = (Ret None, exec_of ?n2, [])"
    by simp
  from inst [where loc = marker_pose1 and ts = "[idle, idle, arrived]" and s = tracking_node
               and ?s1.0 = "exec_of ?n2" and ?ts1.0 = "[]"]
  have "?n2 = (Ret None, exec_of ?n2, []) \<longrightarrow>
        update_loop sim_ext ?src marker_pose1 [idle, idle, arrived] tracking_node
          = (Ret (), exec_of ?n2, [])"
    by (rule conjunct1 [OF conjunct2 [OF conjunct2 [OF conjunct2 [OF conjunct2 [OF conjunct2]]]]])
  with n2' have m: "update_loop sim_ext ?src marker_pose1 [idle, idle, arrived] tracking_node
          = (Ret (), exec_of ?n2, [])"
    by blast
  from a b c c' d f g i i' h j k n1(1) l0 l n2(1) m show ?thesis by blast
qed

subsection \<open>The hex sweep\<close>

lemma hex_plan_cong:
  "(\<And>j. i \<le> j \<Longrightarrow> f j = g j) \<Longrightarrow>
     hex_plan ext planner f base_wp i coords = hex_plan ext planner g base_wp i coords"
  by (induction coords arbitrary: i) simp_all

lemma take_four:
  "take (4 + k) (a # b # c # d # xs) = a # b # c # d # take k xs"
  by (simp add: numeral_eq_Suc)

lemma spin_search_planner:
  "spin_search ext src ts s = (r, s', ts') \<Longrightarrow> path_planner s' = path_planner s"
  by (drule spin_search_steps') (simp add: steps_def)

lemma hex_visit_itinerary:
  "hex_visit ext base_wp i coords ts s = (r, s', ts') \<Longrightarrow>
     \<exists>fix k. k \<le> 4 * length coords
        \<and> itinerary (events s') = itinerary (events s)
             @ take k (hex_plan ext (path_planner s) fix base_wp i coords) @ withdrawn r
        \<and> (r = Ret None \<longrightarrow> k = 4 * length coords)
        \<and> (\<forall>p. r = Ret (Some p) \<longrightarrow> 0 < k \<and> even k \<and> found_check s' = Some p)"
proof (induction coords arbitrary: i ts s)
  case Nil
  then have "(0::nat) \<le> 4 * length ([]::(real \<times> real) list)
        \<and> itinerary (events s') = itinerary (events s)
             @ take 0 (hex_plan ext (path_planner s) (\<lambda>_. None) base_wp i []) @ withdrawn r
        \<and> (r = Ret None \<longrightarrow> (0::nat) = 4 * length ([]::(real \<times> real) list))
        \<and> (\<forall>p. r = Ret (Some p) \<longrightarrow> 0 < (0::nat) \<and> even (0::nat) \<and> found_check s' = Some p)"
    by auto
  then show ?case by blast
next
  case (Cons coord coords)
  let ?v = "hex_wp base_wp coord"
  let ?pl = "path_planner s"
  let ?nav = "[Enter_gps_nav ?v (hex_src i) False,
               SendGoal (FollowGPSWaypoints (route ext ?pl (filtered_gps s) ?v))]"
  let ?spin = "[Enter_spin_search (hex_src i), SendGoal (Spin (314 / 100) 10)]"
  let ?fix = "\<lambda>_::nat. filtered_gps s"
  have plan: "hex_plan ext ?pl f base_wp i (coord # coords)
        = ?nav @ ?spin @ hex_plan ext ?pl f base_wp (Suc i) coords" if "f i = filtered_gps s" for f
    using that by simp
  have fin: ?case
    if "k \<le> 4 * length (coord # coords)"
      "itinerary (events s') = itinerary (events s)
         @ take k (hex_plan ext ?pl f base_wp i (coord # coords)) @ withdrawn r"
      "r = Ret None \<longrightarrow> k = 4 * length (coord # coords)"
      "\<forall>p. r = Ret (Some p) \<longrightarrow> 0 < k \<and> even k \<and> found_check s' = Some p" for f k
    using that by blast
  obtain v1 s1 ts1 where g: "gps_nav ext ?v (hex_src i) False ts s = (v1, s1, ts1)"
    by (cases "gps_nav ext ?v (hex_src i) False ts s")
  from gps_nav_itinerary [OF g] obtain k1 where k1:
    "0 < k1" "k1 \<le> 2"
    "itinerary (events s1) = itinerary (events s) @ take k1 ?nav @ withdrawn v1"
    "(\<exists>found. v1 = Ret found) \<longrightarrow> k1 = 2"
    by blast
  from gps_nav_planner [OF g] have pl1: "path_planner s1 = ?pl" .
  have in_nav: ?case if "r = v1" "s' = s1" "v1 \<noteq> Ret None"
    "\<forall>p. v1 = Ret (Some p) \<longrightarrow> found_check s1 = Some p"
  proof (rule fin [of k1 ?fix])
    from k1(2) show "k1 \<le> 4 * length (coord # coords)" by simp
    from k1(1,2) have "k1 = 1 \<or> k1 = 2" by auto
    with k1(3) that show "itinerary (events s') = itinerary (events s)
         @ take k1 (hex_plan ext ?pl ?fix base_wp i (coord # coords)) @ withdrawn r"
      by (auto simp: plan)
    from that show "r = Ret None \<longrightarrow> k1 = 4 * length (coord # coords)" by simp
    from that k1 show "\<forall>p. r = Ret (Some p) \<longrightarrow> 0 < k1 \<and> even k1 \<and> found_check s' = Some p"
      by auto
  qed
  show ?case
  proof (cases v1)
    case (Raise e)
    with g Cons.prems show ?thesis by (intro in_nav) (auto simp: and_then_def)
  next
    case Pending
    with g Cons.prems show ?thesis by (intro in_nav) (auto simp: and_then_def)
  next
    case (Ret found1)
    show ?thesis
    proof (cases found1)
      case (Some p)
      with Ret g have "found_check s1 = Some p" by (auto dest: gps_nav_Ret)
      with Some Ret g Cons.prems show ?thesis by (intro in_nav) (auto simp: and_then_def)
    next
      case None
      with Ret k1 have e1: "itinerary (events s1) = itinerary (events s) @ ?nav" by simp
      obtain v2 s2 ts2 where sp: "spin_search ext (hex_src i) ts1 s1 = (v2, s2, ts2)"
        by (cases "spin_search ext (hex_src i) ts1 s1")
      from spin_search_itinerary [OF sp] obtain k2 where k2:
        "0 < k2" "k2 \<le> 2"
        "itinerary (events s2) = itinerary (events s1) @ take k2 ?spin @ withdrawn v2"
        "(\<exists>found. v2 = Ret found) \<longrightarrow> k2 = 2"
        by blast
      from spin_search_planner [OF sp] pl1 have pl2: "path_planner s2 = ?pl" by simp
      have in_spin: ?thesis if "r = v2" "s' = s2" "v2 \<noteq> Ret None"
        "\<forall>p. v2 = Ret (Some p) \<longrightarrow> found_check s2 = Some p"
      proof (rule fin [of "2 + k2" ?fix])
        from k2(2) show "2 + k2 \<le> 4 * length (coord # coords)" by simp
        from k2(1,2) have "k2 = 1 \<or> k2 = 2" by auto
        with k2(3) e1 that show "itinerary (events s') = itinerary (events s)
             @ take (2 + k2) (hex_plan ext ?pl ?fix base_wp i (coord # coords)) @ withdrawn r"
          by (auto simp: plan)
        from that show "r = Ret None \<longrightarrow> 2 + k2 = 4 * length (coord # coords)" by simp
        from that k2 show "\<forall>p. r = Ret (Some p) \<longrightarrow> 0 < 2 + k2 \<and> even (2 + k2) \<and> found_check s' = Some p"
          by auto
      qed
      show ?thesis
      proof (cases v2)
        case (Raise e)
        with None Ret g sp Cons.prems show ?thesis by (intro in_spin) (auto simp: and_then_def)
      next
        case Pending
        with None Ret g sp Cons.prems show ?thesis by (intro in_spin) (auto simp: and_then_def)
      next
        case Ret2: (Ret found2)
        show ?thesis
        proof (cases found2)
          case (Some p)
          with Ret2 sp have "found_check s2 = Some p" by (auto dest: spin_search_Some)
          with Some Ret2 None Ret g sp Cons.prems show ?thesis
            by (intro in_spin) (auto simp: and_then_def)
        next
          case None2: None
          with Ret2 k2 e1 have e2: "itinerary (events s2) = itinerary (events s) @ ?nav @ ?spin"
            by simp
          from None2 Ret2 None Ret g sp Cons.prems
          have "hex_visit ext base_wp (Suc i) coords ts2 s2 = (r, s', ts')"
            by (simp add: and_then_def)
          from Cons.IH [OF this] pl2 obtain f k where k:
            "k \<le> 4 * length coords"
            "itinerary (events s') = itinerary (events s2)
               @ take k (hex_plan ext ?pl f base_wp (Suc i) coords) @ withdrawn r"
            "r = Ret None \<longrightarrow> k = 4 * length coords"
            "\<forall>p. r = Ret (Some p) \<longrightarrow> 0 < k \<and> even k \<and> found_check s' = Some p"
            by auto
          let ?f = "f(i := filtered_gps s)"
          have same: "hex_plan ext ?pl ?f base_wp (Suc i) coords = hex_plan ext ?pl f base_wp (Suc i) coords"
            by (rule hex_plan_cong) simp
          show ?thesis
          proof (rule fin [of "4 + k" ?f])
            from k(1) show "4 + k \<le> 4 * length (coord # coords)" by simp
            from k(2) e2 show "itinerary (events s') = itinerary (events s)
                 @ take (4 + k) (hex_plan ext ?pl ?f base_wp i (coord # coords)) @ withdrawn r"
              by (simp add: plan same take_four del: hex_plan.simps)
            from k(3) show "r = Ret None \<longrightarrow> 4 + k = 4 * length (coord # coords)" by simp
            from k(4) show "\<forall>p. r = Ret (Some p) \<longrightarrow> 0 < 4 + k \<and> even (4 + k) \<and> found_check s' = Some p"
              by auto
          qed
        qed
      qed
    qed
  qed
qed

lemma hex_plan_vertices:
  "hex_plan ext planner fix base_wp 0 hex_coord =
     [Enter_gps_nav \<lparr>latitude = latitude base_wp + 1 / 10000, longitude = longitude base_wp, yaw = 0\<rparr> '' (hex 0)'' False,
      SendGoal (FollowGPSWaypoints (route ext planner (fix 0)
         \<lparr>latitude = latitude base_wp + 1 / 10000, longitude = longitude base_wp, yaw = 0\<rparr>)),
      Enter_spin_search '' (hex 0)'',
      SendGoal (Spin (314 / 100) 10),
      Enter_gps_nav \<lparr>latitude = latitude base_wp + 5 / 100000, longitude = longitude base_wp + 866 / 10000000, yaw = 0\<rparr> '' (hex 1)'' False,
      SendGoal (FollowGPSWaypoints (route ext planner (fix 1)
         \<lparr>latitude = latitude base_wp + 5 / 100000, longitude = longitude base_wp + 866 / 10000000, yaw = 0\<rparr>)),
      Enter_spin_search '' (hex 1)'',
      SendGoal (Spin (314 / 100) 10),
      Enter_gps_nav \<lparr>latitude = latitude base_wp - 5 / 100000, longitude = longitude base_wp + 866 / 10000000, yaw = 0\<rparr> '' (hex 2)'' False,
      SendGoal (FollowGPSWaypoints (route ext planner (fix 2)
         \<lparr>latitude = latitude base_wp - 5 / 100000, longitude = longitude base_wp + 866 / 10000000, yaw = 0\<rparr>)),
      Enter_spin_search '' (hex 2)'',
      SendGoal (Spin (314 / 100) 10),
      Enter_gps_nav \<lparr>latitude = latitude base_wp - 1 / 10000, longitude = longitude base_wp, yaw = 0\<rparr> '' (hex 3)'' False,
      SendGoal (FollowGPSWaypoints (route ext planner (fix 3)
         \<lparr>latitude = latitude base_wp - 1 / 10000, longitude = longitude base_wp, yaw = 0\<rparr>)),
      Enter_spin_search '' (hex 3)'',
      SendGoal (Spin (314 / 100) 10),
      Enter_gps_nav \<lparr>latitude = latitude base_wp - 5 / 100000, longitude = longitude base_wp - 866 / 10000000, yaw = 0\<rparr> '' (hex 4)'' False,
      SendGoal (FollowGPSWaypoints (route ext planner (fix 4)
         \<lparr>latitude = latitude base_wp - 5 / 100000, longitude = longitude base_wp - 866 / 10000000, yaw = 0\<rparr>)),
      Enter_spin_search '' (hex 4)'',
      SendGoal (Spin (314 / 100) 10),
      Enter_gps_nav \<lparr>latitude = latitude base_wp + 5 / 100000, longitude = longitude base_wp - 866 / 10000000, yaw = 0\<rparr> '' (hex 5)'' False,
      SendGoal (FollowGPSWaypoints (route ext planner (fix 5)
         \<lparr>latitude = latitude base_wp + 5 / 100000, longitude = longitude base_wp - 866 / 10000000, yaw = 0\<rparr>)),
      Enter_spin_search '' (hex 5)'',
      SendGoal (Spin (314 / 100) 10)]"
  by (simp add: hex_coord_def hex_wp_def hex_scalar_def hex_src_digits latLonYaw2Geopose_def)
     (simp add: eval_nat_numeral)

lemma hex_search_itinerary:
  assumes run: "hex_search ext ts s = (r, s', ts')"
    and wp: "leg_waypoint (wps s) (leg s) = Some base_wp"
  shows "\<exists>fix k. k \<le> 24
           \<and> itinerary (events s') = itinerary (events s)
                @ Enter_hex_search # take k (hex_plan ext (path_planner s) fix base_wp 0 hex_coord)
                @ withdrawn r
           \<and> (r = Ret None \<longrightarrow> k = 24)
           \<and> (\<forall>p. r = Ret (Some p) \<longrightarrow> 0 < k \<and> even k \<and> found_check s' = Some p)"
proof -
  let ?s1 = "task_info ''Starting hex search'' (emit Enter_hex_search s)"
  have c0: "itinerary (events ?s1) = itinerary (events s) @ [Enter_hex_search]"
    "path_planner ?s1 = path_planner s"
    by (simp_all add: task_info_def emit_def)
  from wp have wp1: "leg_waypoint (wps ?s1) (leg ?s1) = Some base_wp"
    by (simp add: task_info_def emit_def)
  obtain v s2 ts2 where hv: "hex_visit ext base_wp 0 hex_coord ts ?s1 = (v, s2, ts2)"
    by (cases "hex_visit ext base_wp 0 hex_coord ts ?s1")
  from hex_visit_itinerary [OF hv] c0(2) obtain f k where k:
    "k \<le> 4 * length hex_coord"
    "itinerary (events s2) = itinerary (events ?s1)
       @ take k (hex_plan ext (path_planner s) f base_wp 0 hex_coord) @ withdrawn v"
    "v = Ret None \<longrightarrow> k = 4 * length hex_coord"
    "\<forall>p. v = Ret (Some p) \<longrightarrow> 0 < k \<and> even k \<and> found_check s2 = Some p"
    by auto
  have len: "4 * length hex_coord = 24" by (simp add: hex_coord_def)
  have "itinerary (events s') = itinerary (events s2) \<and> r = v
        \<and> (\<forall>p. r = Ret (Some p) \<longrightarrow> s' = s2)"
  proof (cases v)
    case (Ret found)
    with run wp1 hv show ?thesis
      by (cases found)
         (auto simp: hex_search_def Let_def and_then_def task_info_def emit_def)
  next
    case (Raise e)
    with run wp1 hv show ?thesis
      by (auto simp: hex_search_def Let_def and_then_def)
  next
    case Pending
    with run wp1 hv show ?thesis
      by (auto simp: hex_search_def Let_def and_then_def)
  qed
  with k c0(1) len have "k \<le> 24
           \<and> itinerary (events s') = itinerary (events s)
                @ Enter_hex_search # take k (hex_plan ext (path_planner s) f base_wp 0 hex_coord)
                @ withdrawn r
           \<and> (r = Ret None \<longrightarrow> k = 24)
           \<and> (\<forall>p. r = Ret (Some p) \<longrightarrow> 0 < k \<and> even k \<and> found_check s' = Some p)"
    by auto
  then show ?thesis by blast
qed

text \<open>C7. The itinerary of a hex sweep (its calls, the goals it sends to the motion servers
  and the cancellations it sends them) is a prefix of a fixed plan of twenty-four entries,
  followed by one cancellation when the sweep ends on a detection or on a cancel request.
  The plan has, for each of the six offsets of \<open>hex_coord\<close> in their order, the call of the
  navigation to the vertex at that offset, scaled by \<open>hex_scalar\<close>, from the waypoint of the
  leg, the goal sent for it, which is the path planned to that vertex, the call of the spin
  search and the goal of the spin. A sweep that reports no detection went through the whole
  plan and cancelled nothing. A sweep that reports a pose stopped after a goal it sent,
  cancelled that goal, and reports the pose of the store; nothing of the plan after that goal
  is called or sent. In particular a navigation or a spin search that returns a pose ends
  the sweep in the state it returned in. Both return the pose of the store, after one sleep
  and the cancellation of their goal, in the first pass of their polling loop that finds the
  motion unfinished, no cancel request and a pose in the store.\<close>

theorem hex_sweep_in_order_until_first_detection:
  "(hex_search ext ts s = (r, s', ts') \<and> leg_waypoint (wps s) (leg s) = Some base_wp \<longrightarrow>
      (\<exists>fix k. k \<le> 24
           \<and> itinerary (events s') = itinerary (events s)
                @ Enter_hex_search # take k (hex_plan ext (path_planner s) fix base_wp 0 hex_coord)
                @ withdrawn r
           \<and> (r = Ret None \<longrightarrow> k = 24)
           \<and> (\<forall>p. r = Ret (Some p) \<longrightarrow> 0 < k \<and> even k \<and> found_check s' = Some p)))
   \<and> withdrawn (Ret None) = [] \<and> withdrawn (Ret (Some p)) = [CancelGoal]
   \<and> hex_plan ext planner fix base_wp 0 hex_coord =
       [Enter_gps_nav \<lparr>latitude = latitude base_wp + 1 / 10000, longitude = longitude base_wp, yaw = 0\<rparr> '' (hex 0)'' False,
         SendGoal (FollowGPSWaypoints (route ext planner (fix 0)
            \<lparr>latitude = latitude base_wp + 1 / 10000, longitude = longitude base_wp, yaw = 0\<rparr>)),
         Enter_spin_search '' (hex 0)'',
         SendGoal (Spin (314 / 100) 10),
         Enter_gps_nav \<lparr>latitude = latitude base_wp + 5 / 100000, longitude = longitude base_wp + 866 / 10000000, yaw = 0\<rparr> '' (hex 1)'' False,
         SendGoal (FollowGPSWaypoints (route ext planner (fix 1)
            \<lparr>latitude = latitude base_wp + 5 / 100000, longitude = longitude base_wp + 866 / 10000000, yaw = 0\<rparr>)),
         Enter_spin_search '' (hex 1)'',
         SendGoal (Spin (314 / 100) 10),
         Enter_gps_nav \<lparr>latitude = latitude base_wp - 5 / 100000, longitude = longitude base_wp + 866 / 10000000, yaw = 0\<rparr> '' (hex 2)'' False,
         SendGoal (FollowGPSWaypoints (route ext planner (fix 2)
            \<lparr>latitude = latitude base_wp - 5 / 100000, longitude = longitude base_wp + 866 / 10000000, yaw = 0\<rparr>)),
         Enter_spin_search '' (hex 2)'',
         SendGoal (Spin (314 / 100) 10),
         Enter_gps_nav \<lparr>latitude = latitude base_wp - 1 / 10000, longitude = longitude base_wp, yaw = 0\<rparr> '' (hex 3)'' False,
         SendGoal (FollowGPSWaypoints (route ext planner (fix 3)
            \<lparr>latitude = latitude base_wp - 1 / 10000, longitude = longitude base_wp, yaw = 0\<rparr>)),
         Enter_spin_search '' (hex 3)'',
         SendGoal (Spin (314 / 100) 10),
         Enter_gps_nav \<lparr>latitude = latitude base_wp - 5 / 100000, longitude = longitude base_wp - 866 / 10000000, yaw = 0\<rparr> '' (hex 4)'' False,
         SendGoal (FollowGPSWaypoints (route ext planner (fix 4)
            \<lparr>latitude = latitude base_wp - 5 / 100000, longitude = longitude base_wp - 866 / 10000000, yaw = 0\<rparr>)),
         Enter_spin_search '' (hex 4)'',
         SendGoal (Spin (314 / 100) 10),
         Enter_gps_nav \<lparr>latitude = latitude base_wp + 5 / 100000, longitude = longitude base_wp - 866 / 10000000, yaw = 0\<rparr> '' (hex 5)'' False,
         SendGoal (FollowGPSWaypoints (route ext planner (fix 5)
            \<lparr>latitude = latitude base_wp + 5 / 100000, longitude = longitude base_wp - 866 / 10000000, yaw = 0\<rparr>)),
         Enter_spin_search '' (hex 5)'',
         SendGoal (Spin (314 / 100) 10)]
   \<and> (gps_nav ext (hex_wp base_wp coord) (hex_src i) False ts s = (Ret (Some p), s1, ts1) \<longrightarrow>
        hex_visit ext base_wp i (coord # coords) ts s = (Ret (Some p), s1, ts1))
   \<and> (gps_nav ext (hex_wp base_wp coord) (hex_src i) False ts s = (Ret None, s1, ts1)
        \<and> spin_search ext (hex_src i) ts1 s1 = (Ret (Some p), s2, ts2) \<longrightarrow>
        hex_visit ext base_wp i (coord # coords) ts s = (Ret (Some p), s2, ts2))
   \<and> (gps_nav ext dest src False ts s = (Ret found, s1, ts1) \<longrightarrow>
        itinerary (events s1) = itinerary (events s)
          @ [Enter_gps_nav dest src False,
             SendGoal (FollowGPSWaypoints (route ext (path_planner s) (filtered_gps s) dest))]
          @ (if found = None then [] else [CancelGoal]))
   \<and> (spin_search ext src ts s = (Ret found, s1, ts1) \<longrightarrow>
        itinerary (events s1) = itinerary (events s)
          @ [Enter_spin_search src, SendGoal (Spin (314 / 100) 10)]
          @ (if found = None then [] else [CancelGoal]))
   \<and> (isTaskComplete t (deliver ext t s) = (False, s1) \<and> \<not> is_cancel_requested s1
        \<and> found_check s1 = Some p \<longrightarrow>
        events s1 = events s
        \<and> poll (gps_nav_pass ext dest src False) (t # ts) s
          = (Ret (Some p), s1\<lparr>events := events s1 @ [Sleep 100, CancelGoal]\<rparr>, ts)
        \<and> poll (spin_search_pass ext) (t # ts) s
          = (Ret (Some p), s1\<lparr>events := events s1 @ [Sleep 100, CancelGoal]\<rparr>, ts))"
proof (intro conjI impI)
  assume "hex_search ext ts s = (r, s', ts') \<and> leg_waypoint (wps s) (leg s) = Some base_wp"
  then show "\<exists>fix k. k \<le> 24
           \<and> itinerary (events s') = itinerary (events s)
                @ Enter_hex_search # take k (hex_plan ext (path_planner s) fix base_wp 0 hex_coord)
                @ withdrawn r
           \<and> (r = Ret None \<longrightarrow> k = 24)
           \<and> (\<forall>p. r = Ret (Some p) \<longrightarrow> 0 < k \<and> even k \<and> found_check s' = Some p)"
    by (intro hex_search_itinerary) auto
next
  show "withdrawn (Ret None) = []" and "withdrawn (Ret (Some p)) = [CancelGoal]"
    by simp_all
next
  show "hex_plan ext planner fix base_wp 0 hex_coord =
       [Enter_gps_nav \<lparr>latitude = latitude base_wp + 1 / 10000, longitude = longitude base_wp, yaw = 0\<rparr> '' (hex 0)'' False,
         SendGoal (FollowGPSWaypoints (route ext planner (fix 0)
            \<lparr>latitude = latitude base_wp + 1 / 10000, longitude = longitude base_wp, yaw = 0\<rparr>)),
         Enter_spin_search '' (hex 0)'',
         SendGoal (Spin (314 / 100) 10),
         Enter_gps_nav \<lparr>latitude = latitude base_wp + 5 / 100000, longitude = longitude base_wp + 866 / 10000000, yaw = 0\<rparr> '' (hex 1)'' False,
         SendGoal (FollowGPSWaypoints (route ext planner (fix 1)
            \<lparr>latitude = latitude base_wp + 5 / 100000, longitude = longitude base_wp + 866 / 10000000, yaw = 0\<rparr>)),
         Enter_spin_search '' (hex 1)'',
         SendGoal (Spin (314 / 100) 10),
         Enter_gps_nav \<lparr>latitude = latitude base_wp - 5 / 100000, longitude = longitude base_wp + 866 / 10000000, yaw = 0\<rparr> '' (hex 2)'' False,
         SendGoal (FollowGPSWaypoints (route ext planner (fix 2)
            \<lparr>latitude = latitude base_wp - 5 / 100000, longitude = longitude base_wp + 866 / 10000000, yaw = 0\<rparr>)),
         Enter_spin_search '' (hex 2)'',
         SendGoal (Spin (314 / 100) 10),
         Enter_gps_nav \<lparr>latitude = latitude base_wp - 1 / 10000, longitude = longitude base_wp, yaw = 0\<rparr> '' (hex 3)'' False,
         SendGoal (FollowGPSWaypoints (route ext planner (fix 3)
            \<lparr>latitude = latitude base_wp - 1 / 10000, longitude = longitude base_wp, yaw = 0\<rparr>)),
         Enter_spin_search '' (hex 3)'',
         SendGoal (Spin (314 / 100) 10),
         Enter_gps_nav \<lparr>latitude = latitude base_wp - 5 / 100000, longitude = longitude base_wp - 866 / 10000000, yaw = 0\<rparr> '' (hex 4)'' False,
         SendGoal (FollowGPSWaypoints (route ext planner (fix 4)
            \<lparr>latitude = latitude base_wp - 5 / 100000, longitude = longitude base_wp - 866 / 10000000, yaw = 0\<rparr>)),
         Enter_spin_search '' (hex 4)'',
         SendGoal (Spin (314 / 100) 10),
         Enter_gps_nav \<lparr>latitude = latitude base_wp + 5 / 100000, longitude = longitude base_wp - 866 / 10000000, yaw = 0\<rparr> '' (hex 5)'' False,
         SendGoal (FollowGPSWaypoints (route ext planner (fix 5)
            \<lparr>latitude = latitude base_wp + 5 / 100000, longitude = longitude base_wp - 866 / 10000000, yaw = 0\<rparr>)),
         Enter_spin_search '' (hex 5)'',
         SendGoal (Spin (314 / 100) 10)]"
    by (rule hex_plan_vertices)
next
  assume "gps_nav ext (hex_wp base_wp coord) (hex_src i) False ts s = (Ret (Some p), s1, ts1)"
  then show "hex_visit ext base_wp i (coord # coords) ts s = (Ret (Some p), s1, ts1)"
    by (simp add: and_then_def)
next
  assume "gps_nav ext (hex_wp base_wp coord) (hex_src i) False ts s = (Ret None, s1, ts1)
        \<and> spin_search ext (hex_src i) ts1 s1 = (Ret (Some p), s2, ts2)"
  then show "hex_visit ext base_wp i (coord # coords) ts s = (Ret (Some p), s2, ts2)"
    by (simp add: and_then_def)
next
  assume g: "gps_nav ext dest src False ts s = (Ret found, s1, ts1)"
  from gps_nav_itinerary [OF g] obtain k where
    "itinerary (events s1) = itinerary (events s)
       @ take k [Enter_gps_nav dest src False,
                 SendGoal (FollowGPSWaypoints (route ext (path_planner s) (filtered_gps s) dest))]
       @ withdrawn (Ret found)"
    "k = 2"
    by blast
  then show "itinerary (events s1) = itinerary (events s)
          @ [Enter_gps_nav dest src False,
             SendGoal (FollowGPSWaypoints (route ext (path_planner s) (filtered_gps s) dest))]
          @ (if found = None then [] else [CancelGoal])"
    by (cases found) simp_all
next
  assume g: "spin_search ext src ts s = (Ret found, s1, ts1)"
  from spin_search_itinerary [OF g] obtain k where
    "itinerary (events s1) = itinerary (events s)
       @ take k [Enter_spin_search src, SendGoal (Spin (314 / 100) 10)]
       @ withdrawn (Ret found)"
    "k = 2"
    by blast
  then show "itinerary (events s1) = itinerary (events s)
          @ [Enter_spin_search src, SendGoal (Spin (314 / 100) 10)]
          @ (if found = None then [] else [CancelGoal])"
    by (cases found) simp_all
next
  assume a: "isTaskComplete t (deliver ext t s) = (False, s1) \<and> \<not> is_cancel_requested s1
        \<and> found_check s1 = Some p"
  then have k: "events s1 = events s" "result_future s1 \<noteq> None"
    using isTaskComplete_kept [of t "deliver ext t s" False s1] by (simp_all add: deliver_kept)
  then show "events s1 = events s" by simp
  from a k(2) show "poll (gps_nav_pass ext dest src False) (t # ts) s
          = (Ret (Some p), s1\<lparr>events := events s1 @ [Sleep 100, CancelGoal]\<rparr>, ts)"
    by (simp add: gps_nav_pass_def Let_def found_check_frame)
       (auto simp: emit_def cancelTask_def)
  from a k(2) show "poll (spin_search_pass ext) (t # ts) s
          = (Ret (Some p), s1\<lparr>events := events s1 @ [Sleep 100, CancelGoal]\<rparr>, ts)"
    by (simp add: spin_search_pass_def Let_def found_check_frame)
       (auto simp: emit_def cancelTask_def)
qed

lemma sweep_run:
  "fst (hex_search sim_ext sweep searching_node) = Ret (Some marker_pose1)"
  "snd (snd (hex_search sim_ext sweep searching_node)) = []"
  "itinerary (events (exec_of (hex_search sim_ext sweep searching_node)))
     = Enter_hex_search
       # take 10 (hex_plan sim_ext ''basicPathPlanner'' (\<lambda>_. None) aruco1_wp 0 hex_coord)
       @ [CancelGoal]"
  by (simp_all add: model_defs sim_defs hex_plan_vertices route_def)

theorem hex_sweep_in_order_until_first_detection_witness:
  "hex_search sim_ext sweep searching_node
     = (Ret (Some marker_pose1), exec_of (hex_search sim_ext sweep searching_node), [])
   \<and> leg_waypoint (wps searching_node) (leg searching_node) = Some aruco1_wp
   \<and> itinerary (events (exec_of (hex_search sim_ext sweep searching_node)))
       = Enter_hex_search
         # take 10 (hex_plan sim_ext ''basicPathPlanner'' (\<lambda>_. None) aruco1_wp 0 hex_coord)
         @ [CancelGoal]
   \<and> take 10 (hex_plan sim_ext ''basicPathPlanner'' (\<lambda>_. None) aruco1_wp 0 hex_coord)
       = [Enter_gps_nav (hex_wp aruco1_wp (1, 0)) '' (hex 0)'' False,
          SendGoal (FollowGPSWaypoints [hex_wp aruco1_wp (1, 0)]),
          Enter_spin_search '' (hex 0)'',
          SendGoal (Spin (314 / 100) 10),
          Enter_gps_nav (hex_wp aruco1_wp (1 / 2, 866 / 1000)) '' (hex 1)'' False,
          SendGoal (FollowGPSWaypoints [hex_wp aruco1_wp (1 / 2, 866 / 1000)]),
          Enter_spin_search '' (hex 1)'',
          SendGoal (Spin (314 / 100) 10),
          Enter_gps_nav (hex_wp aruco1_wp (- 1 / 2, 866 / 1000)) '' (hex 2)'' False,
          SendGoal (FollowGPSWaypoints [hex_wp aruco1_wp (- 1 / 2, 866 / 1000)])]
   \<and> found_check (exec_of (hex_search sim_ext sweep searching_node)) = Some marker_pose1
   \<and> (\<exists>fix k. k \<le> 24 \<and> 0 < k \<and> even k
         \<and> itinerary (events (exec_of (hex_search sim_ext sweep searching_node)))
             = itinerary (events searching_node)
               @ Enter_hex_search
               # take k (hex_plan sim_ext (path_planner searching_node) fix aruco1_wp 0 hex_coord)
               @ withdrawn (Ret (Some marker_pose1)))
   \<and> fst (gps_nav sim_ext (hex_wp aruco1_wp (1, 0)) (hex_src 0) False [idle, idle, sighting] searching_node)
       = Ret (Some marker_pose1)
   \<and> hex_visit sim_ext aruco1_wp 0 [(1, 0), (- 1, 0)] [idle, idle, sighting] searching_node
       = gps_nav sim_ext (hex_wp aruco1_wp (1, 0)) (hex_src 0) False [idle, idle, sighting] searching_node
   \<and> itinerary (events (exec_of
         (gps_nav sim_ext (hex_wp aruco1_wp (1, 0)) (hex_src 0) False [idle, idle, sighting] searching_node)))
       = [Enter_gps_nav (hex_wp aruco1_wp (1, 0)) '' (hex 0)'' False,
          SendGoal (FollowGPSWaypoints [hex_wp aruco1_wp (1, 0)]),
          CancelGoal]
   \<and> fst (gps_nav sim_ext (hex_wp aruco1_wp (1, 0)) (hex_src 0) False
            [idle, idle, arrived, idle, idle, sighting] searching_node) = Ret None
   \<and> fst (hex_visit sim_ext aruco1_wp 0 [(1, 0), (- 1, 0)]
            [idle, idle, arrived, idle, idle, sighting] searching_node) = Ret (Some marker_pose1)
   \<and> snd (snd (hex_visit sim_ext aruco1_wp 0 [(1, 0), (- 1, 0)]
            [idle, idle, arrived, idle, idle, sighting] searching_node)) = []
   \<and> fst (spin_search sim_ext (hex_src 0) [idle, idle, sighting] searching_node) = Ret (Some marker_pose1)
   \<and> itinerary (events (exec_of (spin_search sim_ext (hex_src 0) [idle, idle, sighting] searching_node)))
       = [Enter_spin_search '' (hex 0)'', SendGoal (Spin (314 / 100) 10), CancelGoal]
   \<and> isTaskComplete sighting (deliver sim_ext sighting (searching_node\<lparr>result_future := Some Waiting\<rparr>))
       = (False, deliver sim_ext sighting (searching_node\<lparr>result_future := Some Waiting\<rparr>))
   \<and> fst (poll (gps_nav_pass sim_ext aruco1_wp [] False) [sighting, idle]
            (searching_node\<lparr>result_future := Some Waiting\<rparr>)) = Ret (Some marker_pose1)
   \<and> events (exec_of (poll (gps_nav_pass sim_ext aruco1_wp [] False) [sighting, idle]
            (searching_node\<lparr>result_future := Some Waiting\<rparr>))) = [Sleep 100, CancelGoal]
   \<and> events (exec_of (poll (spin_search_pass sim_ext) [sighting, idle]
            (searching_node\<lparr>result_future := Some Waiting\<rparr>))) = [Sleep 100, CancelGoal]"
proof -
  let ?x = "hex_search sim_ext sweep searching_node"
  note inst = hex_sweep_in_order_until_first_detection [where ext = sim_ext and base_wp = aruco1_wp]
  from run_collapse [OF sweep_run(1)] sweep_run(2)
  have a: "?x = (Ret (Some marker_pose1), exec_of ?x, [])" by simp
  have b: "leg_waypoint (wps searching_node) (leg searching_node) = Some aruco1_wp"
    by (simp add: model_defs sim_defs)
  have b': "take 10 (hex_plan sim_ext ''basicPathPlanner'' (\<lambda>_. None) aruco1_wp 0 hex_coord)
       = [Enter_gps_nav (hex_wp aruco1_wp (1, 0)) '' (hex 0)'' False,
          SendGoal (FollowGPSWaypoints [hex_wp aruco1_wp (1, 0)]),
          Enter_spin_search '' (hex 0)'',
          SendGoal (Spin (314 / 100) 10),
          Enter_gps_nav (hex_wp aruco1_wp (1 / 2, 866 / 1000)) '' (hex 1)'' False,
          SendGoal (FollowGPSWaypoints [hex_wp aruco1_wp (1 / 2, 866 / 1000)]),
          Enter_spin_search '' (hex 1)'',
          SendGoal (Spin (314 / 100) 10),
          Enter_gps_nav (hex_wp aruco1_wp (- 1 / 2, 866 / 1000)) '' (hex 2)'' False,
          SendGoal (FollowGPSWaypoints [hex_wp aruco1_wp (- 1 / 2, 866 / 1000)])]"
    by (simp add: hex_plan_vertices route_def sim_defs hex_wp_def hex_scalar_def latLonYaw2Geopose_def)
  from inst [where ts = sweep and s = searching_node and r = "Ret (Some marker_pose1)"
               and s' = "exec_of ?x" and ts' = "[]"]
  have "?x = (Ret (Some marker_pose1), exec_of ?x, [])
        \<and> leg_waypoint (wps searching_node) (leg searching_node) = Some aruco1_wp \<longrightarrow>
      (\<exists>fix k. k \<le> 24
           \<and> itinerary (events (exec_of ?x)) = itinerary (events searching_node)
                @ Enter_hex_search # take k (hex_plan sim_ext (path_planner searching_node) fix aruco1_wp 0 hex_coord)
                @ withdrawn (Ret (Some marker_pose1))
           \<and> (Ret (Some marker_pose1) = Ret None \<longrightarrow> k = 24)
           \<and> (\<forall>p. Ret (Some marker_pose1) = Ret (Some p) \<longrightarrow> 0 < k \<and> even k \<and> found_check (exec_of ?x) = Some p))"
    by (rule conjunct1)
  with a b have c: "\<exists>fix k. k \<le> 24
           \<and> itinerary (events (exec_of ?x)) = itinerary (events searching_node)
                @ Enter_hex_search # take k (hex_plan sim_ext (path_planner searching_node) fix aruco1_wp 0 hex_coord)
                @ withdrawn (Ret (Some marker_pose1))
           \<and> (\<forall>p. Ret (Some marker_pose1) = Ret (Some p) \<longrightarrow> 0 < k \<and> even k \<and> found_check (exec_of ?x) = Some p)"
    by blast
  then have d: "found_check (exec_of ?x) = Some marker_pose1" by auto
  from c have e: "\<exists>fix k. k \<le> 24 \<and> 0 < k \<and> even k
         \<and> itinerary (events (exec_of ?x))
             = itinerary (events searching_node)
               @ Enter_hex_search
               # take k (hex_plan sim_ext (path_planner searching_node) fix aruco1_wp 0 hex_coord)
               @ withdrawn (Ret (Some marker_pose1))"
    by blast
  have sn: "itinerary (events searching_node) = []" "path_planner searching_node = ''basicPathPlanner''"
    by (simp_all add: sim_defs)
  have rt: "route sim_ext ''basicPathPlanner'' g d = [d]" for g d
    by (simp add: route_def sim_ext_def)
  let ?v0 = "hex_wp aruco1_wp (1, 0)"
  let ?n1 = "gps_nav sim_ext ?v0 (hex_src 0) False [idle, idle, sighting] searching_node"
  have n1: "fst ?n1 = Ret (Some marker_pose1)" by (simp add: model_defs sim_defs)
  from inst [where coord = "(1, 0)" and i = 0 and ts = "[idle, idle, sighting]" and s = searching_node
               and p = marker_pose1 and ?s1.0 = "exec_of ?n1" and ?ts1.0 = "snd (snd ?n1)"
               and coords = "[(- 1, 0)]"]
  have "?n1 = (Ret (Some marker_pose1), exec_of ?n1, snd (snd ?n1)) \<longrightarrow>
        hex_visit sim_ext aruco1_wp 0 [(1, 0), (- 1, 0)] [idle, idle, sighting] searching_node
          = (Ret (Some marker_pose1), exec_of ?n1, snd (snd ?n1))"
    by (rule conjunct1 [OF conjunct2 [OF conjunct2 [OF conjunct2 [OF conjunct2]]]])
  with run_collapse [OF n1]
  have "hex_visit sim_ext aruco1_wp 0 [(1, 0), (- 1, 0)] [idle, idle, sighting] searching_node
          = (Ret (Some marker_pose1), exec_of ?n1, snd (snd ?n1))"
    by blast
  then have f: "hex_visit sim_ext aruco1_wp 0 [(1, 0), (- 1, 0)] [idle, idle, sighting] searching_node = ?n1"
    by (rule trans) (rule sym [OF run_collapse [OF n1]])
  from inst [where dest = ?v0 and src = "hex_src 0" and ts = "[idle, idle, sighting]" and s = searching_node
               and found = "Some marker_pose1" and ?s1.0 = "exec_of ?n1" and ?ts1.0 = "snd (snd ?n1)"]
  have "?n1 = (Ret (Some marker_pose1), exec_of ?n1, snd (snd ?n1)) \<longrightarrow>
        itinerary (events (exec_of ?n1)) = itinerary (events searching_node)
          @ [Enter_gps_nav ?v0 (hex_src 0) False,
             SendGoal (FollowGPSWaypoints (route sim_ext (path_planner searching_node)
                                             (filtered_gps searching_node) ?v0))]
          @ (if Some marker_pose1 = None then [] else [CancelGoal])"
    by (rule conjunct1 [OF conjunct2 [OF conjunct2 [OF conjunct2 [OF conjunct2 [OF conjunct2
              [OF conjunct2]]]]]])
  with run_collapse [OF n1]
  have "itinerary (events (exec_of ?n1)) = itinerary (events searching_node)
          @ [Enter_gps_nav ?v0 (hex_src 0) False,
             SendGoal (FollowGPSWaypoints (route sim_ext (path_planner searching_node)
                                             (filtered_gps searching_node) ?v0))]
          @ (if Some marker_pose1 = None then [] else [CancelGoal])"
    by blast
  then have f': "itinerary (events (exec_of ?n1))
       = [Enter_gps_nav ?v0 '' (hex 0)'' False, SendGoal (FollowGPSWaypoints [?v0]), CancelGoal]"
    by (simp add: sn rt hex_src_digits)
  let ?ts2 = "[idle, idle, arrived, idle, idle, sighting]"
  let ?n2 = "gps_nav sim_ext ?v0 (hex_src 0) False ?ts2 searching_node"
  let ?sp = "spin_search sim_ext (hex_src 0) [idle, idle, sighting] (exec_of ?n2)"
  have n2: "fst ?n2 = Ret None" "snd (snd ?n2) = [idle, idle, sighting]"
    by (simp_all add: model_defs sim_defs)
  have sp: "fst ?sp = Ret (Some marker_pose1)" "snd (snd ?sp) = []"
    by (simp_all add: model_defs sim_defs)
  from run_collapse [OF n2(1)] n2(2) have n2': "?n2 = (Ret None, exec_of ?n2, [idle, idle, sighting])"
    by simp
  from run_collapse [OF sp(1)] sp(2) have sp': "?sp = (Ret (Some marker_pose1), exec_of ?sp, [])"
    by simp
  from inst [where coord = "(1, 0)" and i = 0 and ts = ?ts2 and s = searching_node
               and p = marker_pose1 and ?s1.0 = "exec_of ?n2" and ?ts1.0 = "[idle, idle, sighting]"
               and ?s2.0 = "exec_of ?sp" and ?ts2.0 = "[]" and coords = "[(- 1, 0)]"]
  have "?n2 = (Ret None, exec_of ?n2, [idle, idle, sighting])
        \<and> ?sp = (Ret (Some marker_pose1), exec_of ?sp, []) \<longrightarrow>
        hex_visit sim_ext aruco1_wp 0 [(1, 0), (- 1, 0)] ?ts2 searching_node
          = (Ret (Some marker_pose1), exec_of ?sp, [])"
    by (rule conjunct1 [OF conjunct2 [OF conjunct2 [OF conjunct2 [OF conjunct2 [OF conjunct2]]]]])
  with n2' sp'
  have "hex_visit sim_ext aruco1_wp 0 [(1, 0), (- 1, 0)] ?ts2 searching_node
          = (Ret (Some marker_pose1), exec_of ?sp, [])"
    by blast
  then have g: "fst (hex_visit sim_ext aruco1_wp 0 [(1, 0), (- 1, 0)] ?ts2 searching_node) = Ret (Some marker_pose1)"
          "snd (snd (hex_visit sim_ext aruco1_wp 0 [(1, 0), (- 1, 0)] ?ts2 searching_node)) = []"
    by (simp_all only: fst_conv snd_conv)
  let ?sq = "spin_search sim_ext (hex_src 0) [idle, idle, sighting] searching_node"
  have sq: "fst ?sq = Ret (Some marker_pose1)" by (simp add: model_defs sim_defs)
  from inst [where src = "hex_src 0" and ts = "[idle, idle, sighting]" and s = searching_node
               and found = "Some marker_pose1" and ?s1.0 = "exec_of ?sq" and ?ts1.0 = "snd (snd ?sq)"]
  have "?sq = (Ret (Some marker_pose1), exec_of ?sq, snd (snd ?sq)) \<longrightarrow>
        itinerary (events (exec_of ?sq)) = itinerary (events searching_node)
          @ [Enter_spin_search (hex_src 0), SendGoal (Spin (314 / 100) 10)]
          @ (if Some marker_pose1 = None then [] else [CancelGoal])"
    by (rule conjunct1 [OF conjunct2 [OF conjunct2 [OF conjunct2 [OF conjunct2 [OF conjunct2
              [OF conjunct2 [OF conjunct2]]]]]]])
  with run_collapse [OF sq]
  have "itinerary (events (exec_of ?sq)) = itinerary (events searching_node)
          @ [Enter_spin_search (hex_src 0), SendGoal (Spin (314 / 100) 10)]
          @ (if Some marker_pose1 = None then [] else [CancelGoal])"
    by blast
  then have sq': "itinerary (events (exec_of ?sq))
       = [Enter_spin_search '' (hex 0)'', SendGoal (Spin (314 / 100) 10), CancelGoal]"
    by (simp add: sn hex_src_digits)
  let ?w = "searching_node\<lparr>result_future := Some Waiting\<rparr>"
  let ?s1 = "deliver sim_ext sighting ?w"
  have p1: "isTaskComplete sighting ?s1 = (False, ?s1)"
    and p2: "\<not> is_cancel_requested ?s1"
    and p3: "found_check ?s1 = Some marker_pose1"
    and p4: "events ?s1 = []"
    by (simp_all add: model_defs sim_defs)
  let ?pn = "poll (gps_nav_pass sim_ext aruco1_wp [] False) [sighting, idle] ?w"
  let ?ps = "poll (spin_search_pass sim_ext) [sighting, idle] ?w"
  from inst [where t = sighting and s = ?w and ?s1.0 = ?s1 and p = marker_pose1 and dest = aruco1_wp
               and src = "[]" and ts = "[idle]"]
  have "isTaskComplete sighting ?s1 = (False, ?s1) \<and> \<not> is_cancel_requested ?s1
        \<and> found_check ?s1 = Some marker_pose1 \<longrightarrow>
        events ?s1 = events ?w
        \<and> ?pn = (Ret (Some marker_pose1), ?s1\<lparr>events := events ?s1 @ [Sleep 100, CancelGoal]\<rparr>, [idle])
        \<and> ?ps = (Ret (Some marker_pose1), ?s1\<lparr>events := events ?s1 @ [Sleep 100, CancelGoal]\<rparr>, [idle])"
    by (rule conjunct2 [OF conjunct2 [OF conjunct2 [OF conjunct2 [OF conjunct2 [OF conjunct2
              [OF conjunct2 [OF conjunct2]]]]]]])
  with p1 p2 p3
  have "?pn = (Ret (Some marker_pose1), ?s1\<lparr>events := events ?s1 @ [Sleep 100, CancelGoal]\<rparr>, [idle])"
    and "?ps = (Ret (Some marker_pose1), ?s1\<lparr>events := events ?s1 @ [Sleep 100, CancelGoal]\<rparr>, [idle])"
    by blast+
  then have h: "fst ?pn = Ret (Some marker_pose1)"
    "events (exec_of ?pn) = [Sleep 100, CancelGoal]"
    "events (exec_of ?ps) = [Sleep 100, CancelGoal]"
    using p4 by (simp_all add: exec_of_def)
  from a b sweep_run(3) b' d e n1 f f' n2(1) g sq sq' p1 h show ?thesis by blast
qed

end
